theory Spec2Isabelle
  imports Complex_Main "HOL-Library.AList"
begin

section \<open>Python values and exceptions\<close>

text \<open>
  Exceptions are values. \<open>TypeError\<close> is what \<open>add_rule\<close> raises, \<open>AttributeError\<close> is what
  a missing attribute raises (and what \<open>reg_loss\<close> catches); \<open>Raised\<close> stands for any
  other exception a user-written filter, transformer or \<open>_reg_loss\<close> may raise.
\<close>

datatype error = TypeError | AttributeError | Raised string

text \<open>
  The Python objects that occur as kernel sizes and as the other geometry attributes of a
  convolution: integers, strings (a padding may be \<open>'same'\<close>), lists and tuples. Equality
  is Python's \<open>==\<close> on these: a list is never equal to a tuple.
\<close>

datatype py_obj =
    PyInt int
  | PyStr string
  | PyList "py_obj list"
  | PyTuple "py_obj list"

text \<open>
  The values a regularization loss takes: \<open>None\<close>, a Python float, or a scalar tensor with
  its dtype and device. Floats are idealised as reals; the only arithmetic performed on
  them is the addition of \<open>reg_loss\<close>.
\<close>

datatype device = CPU | CUDA nat

datatype dtype = Float32 | Float64 | Int64

datatype loss_value =
    PyNone
  | PyFloat real
  | Tensor dtype device real

section \<open>utils\<close>

fun forceTwoTuple :: "py_obj \<Rightarrow> py_obj" where
  "forceTwoTuple (PyList xs) = PyTuple xs"
| "forceTwoTuple (PyTuple xs) = PyTuple xs"
| "forceTwoTuple x = PyTuple [x, x]"

section \<open>The host's module tree\<close>

text \<open>The attributes of a convolution that the filters and transformers read.\<close>

record Conv2d_attrs =
  in_channels :: py_obj
  out_channels :: py_obj
  kernel_size :: py_obj
  stride :: py_obj
  padding :: py_obj
  dilation :: py_obj
  bias :: "real list option"
  padding_mode :: string

text \<open>
  Modelled from the spec: the class \<open>torch.nn.Module\<close> is not part of this repository.
  A module is a node of a tree: it has the name of its class, it is or is not an instance
  of \<open>torch.nn.Conv2d\<close>, it may carry the attributes of a convolution, it may have the
  bound method \<open>reg_loss\<close> attached, it may have a method \<open>_reg_loss\<close> (absent, raising or
  returning a value), and it has an ordered mapping from child names to children. An entry
  of that mapping whose value is not a module is \<open>None\<close>. Each module is owned by one
  parent, so the tree is a value and an assignment to a child is an update of the mapping.
\<close>

datatype module = Module
  (type_name: string)
  (is_Conv2d: bool)
  (conv_attrs: "Conv2d_attrs option")
  (has_reg_loss: bool)
  (own_reg_loss: "(error + loss_value) option")
  (named_children: "(string \<times> module option) list")

text \<open>\<open>setattr(module, child_name, new_child)\<close>: the entry keeps its place in the mapping.\<close>

fun setattr :: "module \<Rightarrow> string \<Rightarrow> module \<Rightarrow> module" where
  "setattr (Module tn ic ca hr rl chs) child_name new_child =
     Module tn ic ca hr rl (AList.update child_name (Some new_child) chs)"

text \<open>\<open>module.modules()\<close>: the module itself and all its descendants, in pre-order.\<close>

function modules :: "module \<Rightarrow> module list"
  and modules_of_children :: "(string \<times> module option) list \<Rightarrow> module list" where
  "modules (Module tn ic ca hr rl chs) = Module tn ic ca hr rl chs # modules_of_children chs"
| "modules_of_children [] = []"
| "modules_of_children ((n, None) # rest) = modules_of_children rest"
| "modules_of_children ((n, Some c) # rest) = modules c @ modules_of_children rest"
  by pat_completeness auto
termination
  by (relation "measure (\<lambda>x. case x of
        Inl m \<Rightarrow> size m
      | Inr chs \<Rightarrow> size_list (size_prod (\<lambda>_. 0) (size_option size)) chs)") auto

section \<open>module filters\<close>

text \<open>
  The subclasses of \<open>ModuleFilter\<close>. \<open>CustomFilter\<close> is a subclass written by the user: its
  \<open>apply\<close> is any function of the module, its name and its full name that returns a truth
  value or raises.
\<close>

datatype ModuleFilter =
    ModelFilter
  | Conv2dFilter (kernel_sizes: "py_obj list option")
  | CustomFilter "module \<Rightarrow> string \<Rightarrow> string \<Rightarrow> error + bool"

text \<open>\<open>Conv2dFilter.__init__\<close>: every entry of the allowlist is normalised to a tuple.\<close>

definition Conv2dFilter_init :: "py_obj list option \<Rightarrow> ModuleFilter" where
  "Conv2dFilter_init ks =
     (case ks of
        None \<Rightarrow> Conv2dFilter None
      | Some sizes \<Rightarrow> Conv2dFilter (Some (map forceTwoTuple sizes)))"

definition ModelFilter_apply :: "module \<Rightarrow> string \<Rightarrow> string \<Rightarrow> error + bool" where
  "ModelFilter_apply m name full_name = Inr (full_name = [])"

definition Conv2dFilter_apply ::
  "py_obj list option \<Rightarrow> module \<Rightarrow> string \<Rightarrow> string \<Rightarrow> error + bool" where
  "Conv2dFilter_apply ks m name full_name =
     (if \<not> is_Conv2d m then Inr False
      else case ks of
        None \<Rightarrow> Inr True
      | Some sizes \<Rightarrow>
          (case conv_attrs m of
             None \<Rightarrow> Inl AttributeError
           | Some a \<Rightarrow> if kernel_size a \<in> set sizes then Inr True else Inr False))"

fun ModuleFilter_apply :: "ModuleFilter \<Rightarrow> module \<Rightarrow> string \<Rightarrow> string \<Rightarrow> error + bool" where
  "ModuleFilter_apply ModelFilter m name full_name = ModelFilter_apply m name full_name"
| "ModuleFilter_apply (Conv2dFilter ks) m name full_name = Conv2dFilter_apply ks m name full_name"
| "ModuleFilter_apply (CustomFilter f) m name full_name = f m name full_name"

section \<open>module transformers\<close>

text \<open>The keyword arguments with which the transformers call the constructors of the
  decomposed convolutions.\<close>

record BSConvU_kwargs =
  kw_in_channels :: py_obj
  kw_out_channels :: py_obj
  kw_kernel_size :: py_obj
  kw_stride :: py_obj
  kw_padding :: py_obj
  kw_dilation :: py_obj
  kw_bias :: bool
  kw_padding_mode :: string

record BSConvS_kwargs = BSConvU_kwargs +
  kw_p :: real
  kw_with_bn_relu :: bool
  kw_bn_kwargs :: "(string \<times> py_obj) list option"

text \<open>
  The subclasses of \<open>ModuleTransformer\<close>. The classes \<open>bsconv.pytorch.modules.BSConvU\<close>
  and \<open>BSConvS\<close> are not part of this file: their constructors are parameters of the two
  transformers that call them. \<open>CustomTransformer\<close> is a subclass written by the user.
\<close>

datatype ModuleTransformer =
    Conv2dToBSConvUTransformer "BSConvU_kwargs \<Rightarrow> error + module"
  | BSConvSTransformer "BSConvS_kwargs \<Rightarrow> error + module" real bool
      "(string \<times> py_obj) list option"
  | RegularizationMethodTransformer
  | CustomTransformer "module \<Rightarrow> string \<Rightarrow> string \<Rightarrow> error + module"

definition carried_kwargs :: "Conv2d_attrs \<Rightarrow> BSConvU_kwargs" where
  "carried_kwargs a =
     \<lparr>kw_in_channels = in_channels a,
      kw_out_channels = out_channels a,
      kw_kernel_size = kernel_size a,
      kw_stride = stride a,
      kw_padding = padding a,
      kw_dilation = dilation a,
      kw_bias = (bias a \<noteq> None),
      kw_padding_mode = padding_mode a\<rparr>"

definition Conv2dToBSConvUTransformer_apply ::
  "(BSConvU_kwargs \<Rightarrow> error + module) \<Rightarrow> module \<Rightarrow> string \<Rightarrow> string \<Rightarrow> error + module" where
  "Conv2dToBSConvUTransformer_apply BSConvU m name full_name =
     (case conv_attrs m of
        None \<Rightarrow> Inl AttributeError
      | Some a \<Rightarrow> BSConvU (carried_kwargs a))"

definition BSConvSTransformer_apply ::
  "(BSConvS_kwargs \<Rightarrow> error + module) \<Rightarrow> real \<Rightarrow> bool \<Rightarrow> (string \<times> py_obj) list option \<Rightarrow>
     module \<Rightarrow> string \<Rightarrow> string \<Rightarrow> error + module" where
  "BSConvSTransformer_apply BSConvS p with_bn_relu bn_kwargs m name full_name =
     (case conv_attrs m of
        None \<Rightarrow> Inl AttributeError
      | Some a \<Rightarrow>
          BSConvS (BSConvU_kwargs.extend (carried_kwargs a)
            (BSConvS_kwargs.fields p with_bn_relu bn_kwargs)))"

subsection \<open>The regularization method\<close>

text \<open>
  \<open>float + float\<close>, \<open>float + tensor\<close> and \<open>tensor + tensor\<close> for the scalar losses: the sum of a
  float and a tensor is a tensor on the tensor's device (of the default float dtype when
  the tensor is integral); two tensors must be on one device unless one of them is on the
  CPU. \<open>None\<close> cannot be added.
\<close>

fun float_dtype :: "dtype \<Rightarrow> dtype" where
  "float_dtype Int64 = Float32"
| "float_dtype dt = dt"

fun result_dtype :: "dtype \<Rightarrow> dtype \<Rightarrow> dtype" where
  "result_dtype Float64 _ = Float64"
| "result_dtype _ Float64 = Float64"
| "result_dtype Float32 _ = Float32"
| "result_dtype _ Float32 = Float32"
| "result_dtype Int64 Int64 = Int64"

fun py_add :: "loss_value \<Rightarrow> loss_value \<Rightarrow> error + loss_value" where
  "py_add (PyFloat a) (PyFloat b) = Inr (PyFloat (a + b))"
| "py_add (PyFloat a) (Tensor dt dev b) = Inr (Tensor (float_dtype dt) dev (a + b))"
| "py_add (Tensor dt dev a) (PyFloat b) = Inr (Tensor (float_dtype dt) dev (a + b))"
| "py_add (Tensor dt1 dev1 a) (Tensor dt2 dev2 b) =
     (if dev1 = dev2 \<or> dev2 = CPU then Inr (Tensor (result_dtype dt1 dt2) dev1 (a + b))
      else if dev1 = CPU then Inr (Tensor (result_dtype dt1 dt2) dev2 (a + b))
      else Inl (Raised ''RuntimeError''))"
| "py_add PyNone _ = Inl TypeError"
| "py_add _ PyNone = Inl TypeError"

text \<open>\<open>sub_loss.device\<close>: only a tensor has a device.\<close>

fun device_of :: "loss_value \<Rightarrow> error + device" where
  "device_of (Tensor dt dev x) = Inr dev"
| "device_of _ = Inl AttributeError"

text \<open>
  \<open>sub_module._reg_loss()\<close> under its \<open>try\<close>: \<open>None\<close> is the \<open>continue\<close> of the
  \<open>except AttributeError\<close> clause, which catches a missing method and an
  \<open>AttributeError\<close> raised inside the method alike; any other exception propagates.
\<close>

definition try_reg_loss :: "module \<Rightarrow> error + loss_value option" where
  "try_reg_loss sub_module =
     (case own_reg_loss sub_module of
        None \<Rightarrow> Inr None
      | Some (Inl AttributeError) \<Rightarrow> Inr None
      | Some (Inl e) \<Rightarrow> Inl e
      | Some (Inr sub_loss) \<Rightarrow> Inr (Some sub_loss))"

text \<open>The statements of the loop body after the \<open>try\<close>, on the accumulator \<open>loss\<close>.\<close>

definition accumulate :: "loss_value \<Rightarrow> loss_value \<Rightarrow> error + loss_value" where
  "accumulate loss sub_loss =
     (if loss = PyNone then
        (case device_of sub_loss of
           Inl e \<Rightarrow> Inl e
         | Inr dev \<Rightarrow> Inr (Tensor Float32 dev 0))
      else py_add loss sub_loss)"

fun reg_loss_loop :: "loss_value \<Rightarrow> module list \<Rightarrow> error + loss_value" where
  "reg_loss_loop loss [] = Inr loss"
| "reg_loss_loop loss (sub_module # rest) =
     (case try_reg_loss sub_module of
        Inl e \<Rightarrow> Inl e
      | Inr None \<Rightarrow> reg_loss_loop loss rest
      | Inr (Some sub_loss) \<Rightarrow>
          (case accumulate loss sub_loss of
             Inl e \<Rightarrow> Inl e
           | Inr loss' \<Rightarrow> reg_loss_loop loss' rest))"

text \<open>The closure \<open>reg_loss\<close>, on the module it was bound to.\<close>

definition reg_loss :: "module \<Rightarrow> error + loss_value" where
  "reg_loss m = reg_loss_loop (PyFloat 0) (modules m)"

text \<open>\<open>module.reg_loss()\<close>: the method exists once the transformer has attached it.\<close>

definition call_reg_loss :: "module \<Rightarrow> error + loss_value" where
  "call_reg_loss m = (if has_reg_loss m then reg_loss m else Inl AttributeError)"

fun attach_reg_loss :: "module \<Rightarrow> module" where
  "attach_reg_loss (Module tn ic ca hr rl chs) = Module tn ic ca True rl chs"

definition RegularizationMethodTransformer_apply ::
  "module \<Rightarrow> string \<Rightarrow> string \<Rightarrow> error + module" where
  "RegularizationMethodTransformer_apply m name full_name = Inr (attach_reg_loss m)"

fun ModuleTransformer_apply ::
  "ModuleTransformer \<Rightarrow> module \<Rightarrow> string \<Rightarrow> string \<Rightarrow> error + module" where
  "ModuleTransformer_apply (Conv2dToBSConvUTransformer BSConvU) m name full_name =
     Conv2dToBSConvUTransformer_apply BSConvU m name full_name"
| "ModuleTransformer_apply (BSConvSTransformer BSConvS p with_bn_relu bn_kwargs) m name full_name =
     BSConvSTransformer_apply BSConvS p with_bn_relu bn_kwargs m name full_name"
| "ModuleTransformer_apply RegularizationMethodTransformer m name full_name =
     RegularizationMethodTransformer_apply m name full_name"
| "ModuleTransformer_apply (CustomTransformer f) m name full_name = f m name full_name"

section \<open>module replacement\<close>

record ModuleReplacementRule =
  rule_filter :: ModuleFilter
  rule_transformer :: ModuleTransformer

text \<open>The fields of a \<open>ModuleReplacer\<close>, with the name of its class (the presets are
  subclasses).\<close>

record ModuleReplacer =
  class_name :: string
  verbosity :: int
  rules :: "ModuleReplacementRule list"

definition ModuleReplacer_init :: "int \<Rightarrow> ModuleReplacer" where
  "ModuleReplacer_init v = \<lparr>class_name = ''ModuleReplacer'', verbosity = v, rules = []\<rparr>"

text \<open>
  A call of a rule's filter or transformer, with the index of the rule in \<open>self.rules\<close> and
  the arguments \<open>module\<close>, \<open>name\<close> and \<open>full_name\<close> of the call.
\<close>

datatype call =
    FilterCall nat module string string
  | TransformerCall nat module string string

text \<open>
  The state the methods of a replacer run in: the replacer itself (\<open>self\<close>), the lines
  printed so far, and the calls of filters and transformers made so far. A method takes
  the state and returns its result, or the exception it raises, with the state it leaves.
\<close>

record world =
  replacer :: ModuleReplacer
  stdout :: "string list"
  calls :: "call list"

type_synonym 'a outcome = "(error + 'a) \<times> world"

subsection \<open>add_rule\<close>

text \<open>The positional arguments of \<open>add_rule\<close>: a rule, a filter, a transformer, or an
  object of any other class.\<close>

datatype arg =
    RuleArg ModuleReplacementRule
  | FilterArg ModuleFilter
  | TransformerArg ModuleTransformer
  | OtherArg py_obj

fun rule_of_args :: "arg list \<Rightarrow> error + ModuleReplacementRule" where
  "rule_of_args [RuleArg r] = Inr r"
| "rule_of_args [FilterArg f, TransformerArg t] =
     Inr \<lparr>rule_filter = f, rule_transformer = t\<rparr>"
| "rule_of_args args = Inl TypeError"

definition ModuleReplacer_add_rule :: "world \<Rightarrow> arg list \<Rightarrow> unit outcome" where
  "ModuleReplacer_add_rule w args =
     (case rule_of_args args of
        Inl e \<Rightarrow> (Inl e, w)
      | Inr rule \<Rightarrow>
          (Inr (), w\<lparr>replacer := (replacer w)\<lparr>rules := rules (replacer w) @ [rule]\<rparr>\<rparr>))"

subsection \<open>Printing\<close>

fun str_nat :: "nat \<Rightarrow> string" where
  "str_nat n =
     (if n < 10 then [char_of (48 + n)]
      else str_nat (n div 10) @ [char_of (48 + n mod 10)])"

definition print :: "string \<Rightarrow> world \<Rightarrow> world" where
  "print line w = w\<lparr>stdout := stdout w @ [line]\<rparr>"

definition replaced_line :: "string \<Rightarrow> string \<Rightarrow> string \<Rightarrow> string \<Rightarrow> string" where
  "replaced_line cls full_name old_type_name new_type_name =
     cls @ '' replaced '' @ [CHR 0x27] @
     (if full_name \<noteq> [] then full_name else ''(root)'') @ [CHR 0x27] @
     '': '' @ old_type_name @ '' => '' @ new_type_name"

definition total_line :: "string \<Rightarrow> nat \<Rightarrow> string" where
  "total_line cls total_replaced_count =
     cls @ '' replaced a total of '' @ str_nat total_replaced_count @ '' module'' @
     (if total_replaced_count = 1 then [] else ''s'')"

subsection \<open>_apply_rules\<close>

text \<open>The loop over \<open>self.rules\<close>; \<open>i\<close> is the index of the first of the remaining rules.\<close>

fun apply_rules_loop ::
  "nat \<Rightarrow> ModuleReplacementRule list \<Rightarrow> world \<Rightarrow> module \<Rightarrow> string \<Rightarrow> string \<Rightarrow>
     (nat \<times> module) outcome" where
  "apply_rules_loop i [] w m name full_name = (Inr (0, m), w)"
| "apply_rules_loop i (rule # rest) w m name full_name =
     (let w1 = w\<lparr>calls := calls w @ [FilterCall i m name full_name]\<rparr> in
      case ModuleFilter_apply (rule_filter rule) m name full_name of
        Inl e \<Rightarrow> (Inl e, w1)
      | Inr False \<Rightarrow> apply_rules_loop (Suc i) rest w1 m name full_name
      | Inr True \<Rightarrow>
          (let old_type_name = type_name m;
               w2 = w1\<lparr>calls := calls w1 @ [TransformerCall i m name full_name]\<rparr> in
           case ModuleTransformer_apply (rule_transformer rule) m name full_name of
             Inl e \<Rightarrow> (Inl e, w2)
           | Inr m' \<Rightarrow>
               (Inr (1, m'),
                if verbosity (replacer w2) \<ge> 2
                then print (replaced_line (class_name (replacer w2)) full_name
                       old_type_name (type_name m')) w2
                else w2)))"

definition ModuleReplacer_apply_rules ::
  "world \<Rightarrow> module \<Rightarrow> string \<Rightarrow> string \<Rightarrow> (nat \<times> module) outcome" where
  "ModuleReplacer_apply_rules w m name full_name =
     apply_rules_loop 0 (rules (replacer w)) w m name full_name"

subsection \<open>_apply_recursively\<close>

text \<open>
  \<open>children_loop\<close> is the \<open>for\<close> loop over the snapshot \<open>named_children\<close>: it carries the
  running \<open>replaced_count\<close> and the module whose children it reassigns.
\<close>

function ModuleReplacer_apply_recursively ::
    "world \<Rightarrow> module \<Rightarrow> string \<Rightarrow> (nat \<times> module) outcome"
  and children_loop ::
    "world \<Rightarrow> string \<Rightarrow> (string \<times> module option) list \<Rightarrow> nat \<Rightarrow> module \<Rightarrow>
       (nat \<times> module) outcome" where
  "ModuleReplacer_apply_recursively w (Module tn ic ca hr rl chs) name_prefix =
     children_loop w name_prefix chs 0 (Module tn ic ca hr rl chs)"
| "children_loop w name_prefix [] replaced_count m = (Inr (replaced_count, m), w)"
| "children_loop w name_prefix ((child_name, None) # rest) replaced_count m =
     children_loop w name_prefix rest replaced_count m"
| "children_loop w name_prefix ((child_name, Some child) # rest) replaced_count m =
     (let child_full_name = name_prefix @ child_name in
      case ModuleReplacer_apply_rules w child child_name child_full_name of
        (Inl e, w1) \<Rightarrow> (Inl e, w1)
      | (Inr (child_replaced_count, new_child), w1) \<Rightarrow>
          (case (if child_replaced_count = 0
                 then ModuleReplacer_apply_recursively w1 child (name_prefix @ child_name @ ''.'')
                 else (Inr (child_replaced_count, new_child), w1)) of
             (Inl e, w2) \<Rightarrow> (Inl e, w2)
           | (Inr (child_replaced_count', new_child'), w2) \<Rightarrow>
               children_loop w2 name_prefix rest (replaced_count + child_replaced_count')
                 (setattr m child_name new_child')))"
  by pat_completeness auto
termination
  by (relation "measure (\<lambda>x. case x of
        Inl (w, m, p) \<Rightarrow> size m
      | Inr (w, p, chs, n, m) \<Rightarrow> size_list (size_prod (\<lambda>_. 0) (size_option size)) chs)") auto

subsection \<open>apply\<close>

text \<open>
  The two traversal statements of \<open>apply\<close>, with the values they bind:
  \<open>root_replaced_count\<close>, \<open>replaced_count\<close> and the module.
\<close>

definition apply_traverse :: "world \<Rightarrow> module \<Rightarrow> (nat \<times> nat \<times> module) outcome" where
  "apply_traverse w m =
     (case ModuleReplacer_apply_rules w m [] [] of
        (Inl e, w1) \<Rightarrow> (Inl e, w1)
      | (Inr (root_replaced_count, m1), w1) \<Rightarrow>
          (case ModuleReplacer_apply_recursively w1 m1 [] of
             (Inl e, w2) \<Rightarrow> (Inl e, w2)
           | (Inr (replaced_count, m2), w2) \<Rightarrow>
               (Inr (root_replaced_count, replaced_count, m2), w2)))"

definition ModuleReplacer_apply :: "world \<Rightarrow> module \<Rightarrow> module outcome" where
  "ModuleReplacer_apply w m =
     (case apply_traverse w m of
        (Inl e, w') \<Rightarrow> (Inl e, w')
      | (Inr (root_replaced_count, replaced_count, m'), w') \<Rightarrow>
          (Inr m',
           if verbosity (replacer w') \<ge> 1
           then (let total_replaced_count = replaced_count + root_replaced_count
                 in print (total_line (class_name (replacer w')) total_replaced_count) w')
           else w'))"

subsection \<open>The presets\<close>

definition default_kernel_sizes :: "py_obj list option" where
  "default_kernel_sizes =
     Some [PyTuple [PyInt 3, PyInt 3], PyTuple [PyInt 5, PyInt 5]]"

definition BSConvU_Replacer ::
  "(BSConvU_kwargs \<Rightarrow> error + module) \<Rightarrow> py_obj list option \<Rightarrow> int \<Rightarrow> ModuleReplacer" where
  "BSConvU_Replacer BSConvU ks v =
     \<lparr>class_name = ''BSConvU_Replacer'', verbosity = v,
      rules = [\<lparr>rule_filter = Conv2dFilter_init ks,
                rule_transformer = Conv2dToBSConvUTransformer BSConvU\<rparr>]\<rparr>"

definition BSConvS_Replacer ::
  "(BSConvS_kwargs \<Rightarrow> error + module) \<Rightarrow> py_obj list option \<Rightarrow> real \<Rightarrow> bool \<Rightarrow>
     (string \<times> py_obj) list option \<Rightarrow> int \<Rightarrow> ModuleReplacer" where
  "BSConvS_Replacer BSConvS ks p with_bn_relu bn_kwargs v =
     \<lparr>class_name = ''BSConvS_Replacer'', verbosity = v,
      rules = [\<lparr>rule_filter = Conv2dFilter_init ks,
                rule_transformer = BSConvSTransformer BSConvS p with_bn_relu bn_kwargs\<rparr>,
               \<lparr>rule_filter = ModelFilter,
                rule_transformer = RegularizationMethodTransformer\<rparr>]\<rparr>"

text \<open>A fresh state around a replacer: nothing printed, no call made.\<close>

definition fresh :: "ModuleReplacer \<Rightarrow> world" where
  "fresh r = \<lparr>replacer = r, stdout = [], calls = []\<rparr>"

section \<open>Observing a traversal\<close>

text \<open>
  What the loop body of \<open>_apply_recursively\<close> does for one child that is a module: it
  applies the rules to the child and, when none applied, recurses into the child.
\<close>

definition visit_child :: "world \<Rightarrow> string \<Rightarrow> string \<Rightarrow> module \<Rightarrow> (nat \<times> module) outcome" where
  "visit_child w name_prefix child_name child =
     (case ModuleReplacer_apply_rules w child child_name (name_prefix @ child_name) of
        (Inl e, w1) \<Rightarrow> (Inl e, w1)
      | (Inr (c, new_child), w1) \<Rightarrow>
          if c = 0
          then ModuleReplacer_apply_recursively w1 child (name_prefix @ child_name @ ''.'')
          else (Inr (c, new_child), w1))"

text \<open>The calls made between two states, and the number of transformer calls in a list of
  calls.\<close>

definition new_calls :: "world \<Rightarrow> world \<Rightarrow> call list" where
  "new_calls w w' = drop (length (calls w)) (calls w')"

fun is_TransformerCall :: "call \<Rightarrow> bool" where
  "is_TransformerCall (TransformerCall i m name full_name) = True"
| "is_TransformerCall (FilterCall i m name full_name) = False"

definition count_calls :: "call list \<Rightarrow> nat" where
  "count_calls cs = length (filter is_TransformerCall cs)"

fun call_module :: "call \<Rightarrow> module" where
  "call_module (FilterCall i m name full_name) = m"
| "call_module (TransformerCall i m name full_name) = m"

fun call_name :: "call \<Rightarrow> string" where
  "call_name (FilterCall i m name full_name) = name"
| "call_name (TransformerCall i m name full_name) = name"

fun call_full_name :: "call \<Rightarrow> string" where
  "call_full_name (FilterCall i m name full_name) = full_name"
| "call_full_name (TransformerCall i m name full_name) = full_name"

text \<open>
  The path of a node, as the specification defines it: the names on the way from the root
  to the node, joined with dots. \<open>node_at m names x\<close> holds when \<open>x\<close> is reached from
  \<open>m\<close> by following the child names \<open>names\<close>.
\<close>

fun dot_join :: "string list \<Rightarrow> string" where
  "dot_join [] = []"
| "dot_join [n] = n"
| "dot_join (n # ns) = n @ ''.'' @ dot_join ns"

fun node_at :: "module \<Rightarrow> string list \<Rightarrow> module \<Rightarrow> bool" where
  "node_at m [] x = (x = m)"
| "node_at m (n # ns) x =
     list_ex (\<lambda>(k, v). k = n \<and> (case v of None \<Rightarrow> False | Some c \<Rightarrow> node_at c ns x))
       (named_children m)"

text \<open>
  A call is on a path below \<open>m\<close> (below one of the children \<open>chs\<close>) when its module is
  reached by a non-empty sequence of child names, its name is the last of them and its
  full name is the prefix followed by their dot-joined sequence.
\<close>

definition on_path :: "string \<Rightarrow> module \<Rightarrow> call \<Rightarrow> bool" where
  "on_path p m ev \<longleftrightarrow> (\<exists>names. names \<noteq> [] \<and> node_at m names (call_module ev)
      \<and> call_name ev = last names \<and> call_full_name ev = p @ dot_join names)"

definition on_path_from :: "string \<Rightarrow> (string \<times> module option) list \<Rightarrow> call \<Rightarrow> bool" where
  "on_path_from p chs ev \<longleftrightarrow> (\<exists>cn c. (cn, Some c) \<in> set chs \<and>
      ((call_module ev = c \<and> call_name ev = cn \<and> call_full_name ev = p @ cn)
       \<or> on_path (p @ cn @ ''.'') c ev))"

text \<open>
  The keys of a mapping are unique: \<open>unique_child_names m\<close> says so for the child mapping of
  \<open>m\<close> and of every descendant of \<open>m\<close>.
\<close>

definition unique_child_names :: "module \<Rightarrow> bool" where
  "unique_child_names m = list_all (\<lambda>x. distinct (map fst (named_children x))) (modules m)"

text \<open>
  No rule of the list matches a node: every filter returns \<open>False\<close> for the node with its
  name and full name. The name of the node reached by \<open>names\<close> is the last of them, and
  the empty string for the root. \<open>quiet_below rs p m\<close>: no rule of \<open>rs\<close> matches a proper
  descendant of \<open>m\<close>, with the paths prefixed by \<open>p\<close>.
\<close>

definition no_rule_matches ::
  "ModuleReplacementRule list \<Rightarrow> module \<Rightarrow> string \<Rightarrow> string \<Rightarrow> bool" where
  "no_rule_matches rs x name full_name =
     list_all (\<lambda>r. ModuleFilter_apply (rule_filter r) x name full_name = Inr False) rs"

definition node_name :: "string list \<Rightarrow> string" where
  "node_name names = (if names = [] then [] else last names)"

definition quiet_below :: "ModuleReplacementRule list \<Rightarrow> string \<Rightarrow> module \<Rightarrow> bool" where
  "quiet_below rs p m \<longleftrightarrow> (\<forall>names x. names \<noteq> [] \<and> node_at m names x \<longrightarrow>
      no_rule_matches rs x (last names) (p @ dot_join names))"



section \<open>Example modules\<close>

definition example_attrs :: "py_obj \<Rightarrow> Conv2d_attrs" where
  "example_attrs ks =
     \<lparr>in_channels = PyInt 16, out_channels = PyInt 32, kernel_size = ks,
      stride = PyTuple [PyInt 1, PyInt 1], padding = PyTuple [PyInt 1, PyInt 1],
      dilation = PyTuple [PyInt 1, PyInt 1], bias = None, padding_mode = ''zeros''\<rparr>"

text \<open>A \<open>torch.nn.Conv2d\<close> with the given kernel size, a \<open>torch.nn.ReLU\<close>, a layer whose
  \<open>_reg_loss\<close> returns the given value, and a container with the given children.\<close>

definition Conv2d :: "py_obj \<Rightarrow> module" where
  "Conv2d ks = Module ''Conv2d'' True (Some (example_attrs ks)) False None []"

definition ReLU :: module where
  "ReLU = Module ''ReLU'' False None False None []"

definition layer_with_loss :: "loss_value \<Rightarrow> module" where
  "layer_with_loss v = Module ''Layer'' False None False (Some (Inr v)) []"

definition container :: "string \<Rightarrow> (string \<times> module option) list \<Rightarrow> module" where
  "container cls chs = Module cls False None False None chs"

text \<open>A replacer with the given rules; a filter that matches every module; a transformer
  that returns the given module whatever it is applied to.\<close>

definition replacer_with :: "ModuleReplacementRule list \<Rightarrow> int \<Rightarrow> ModuleReplacer" where
  "replacer_with rs v = \<lparr>class_name = ''ModuleReplacer'', verbosity = v, rules = rs\<rparr>"

definition match_all :: ModuleFilter where
  "match_all = CustomFilter (\<lambda>m name full_name. Inr True)"

definition to_module :: "module \<Rightarrow> ModuleTransformer" where
  "to_module r = CustomTransformer (\<lambda>m name full_name. Inr r)"

definition three_rules :: "ModuleReplacementRule list" where
  "three_rules =
     [\<lparr>rule_filter = Conv2dFilter_init (Some [PyInt 5]), rule_transformer = to_module ReLU\<rparr>,
      \<lparr>rule_filter = Conv2dFilter_init None,
       rule_transformer = to_module (container ''Identity'' [])\<rparr>,
      \<lparr>rule_filter = match_all, rule_transformer = to_module ReLU\<rparr>]"

text \<open>
  Two constructors for the decomposed convolutions that return a module without children,
  the two presets built with them, and small models: a convolution of kernel size 3 and
  one of kernel size 7, a model with one convolution, and a model with a convolution
  \<open>conv1\<close> inside a block \<open>block1\<close>.
\<close>

definition opaque_BSConvS :: "BSConvS_kwargs \<Rightarrow> error + module" where
  "opaque_BSConvS kw = Inr (container ''BSConvS'' [])"

definition opaque_BSConvU :: "BSConvU_kwargs \<Rightarrow> error + module" where
  "opaque_BSConvU kw = Inr (container ''BSConvU'' [])"

definition conv3 :: module where
  "conv3 = Conv2d (PyTuple [PyInt 3, PyInt 3])"

definition conv7 :: module where
  "conv7 = Conv2d (PyTuple [PyInt 7, PyInt 7])"

definition small_net :: module where
  "small_net = container ''Net'' [(''conv'', Some conv3)]"

definition nested_net :: "module \<Rightarrow> module" where
  "nested_net c = container ''Net''
     [(''block1'', Some (container ''Block'' [(''conv1'', Some c)])), (''act'', Some ReLU)]"

definition preset_S :: ModuleReplacer where
  "preset_S = BSConvS_Replacer opaque_BSConvS default_kernel_sizes (1 / 4) True None 0"

definition preset_U :: "int \<Rightarrow> ModuleReplacer" where
  "preset_U v = BSConvU_Replacer opaque_BSConvU default_kernel_sizes v"



section \<open>Properties of the filters\<close>

text \<open>
  C6 (kernel-size normalization). A \<open>Conv2dFilter\<close> constructed with the allowlist \<open>[3]\<close>
  matches a 2D convolution whose kernel size is \<open>(3, 3)\<close> and does not match one whose
  kernel size is \<open>(3, 5)\<close>; a filter constructed with \<open>[(3, 3), (5, 5)]\<close> gives on every
  module the answer of the filter constructed with \<open>[3, 5]\<close>; a filter constructed with no
  allowlist matches every 2D convolution.
\<close>

theorem Conv2dFilter_kernel_size_normalization:
  "(is_Conv2d m \<and> conv_attrs m = Some a \<and> kernel_size a = PyTuple [PyInt 3, PyInt 3] \<longrightarrow>
      ModuleFilter_apply (Conv2dFilter_init (Some [PyInt 3])) m name full_name = Inr True)
   \<and> (is_Conv2d m \<and> conv_attrs m = Some a \<and> kernel_size a = PyTuple [PyInt 3, PyInt 5] \<longrightarrow>
      ModuleFilter_apply (Conv2dFilter_init (Some [PyInt 3])) m name full_name = Inr False)
   \<and> ModuleFilter_apply
        (Conv2dFilter_init (Some [PyTuple [PyInt 3, PyInt 3], PyTuple [PyInt 5, PyInt 5]]))
        m name full_name
       = ModuleFilter_apply (Conv2dFilter_init (Some [PyInt 3, PyInt 5])) m name full_name
   \<and> (is_Conv2d m \<longrightarrow>
      ModuleFilter_apply (Conv2dFilter_init None) m name full_name = Inr True)"
  by (simp add: Conv2dFilter_init_def Conv2dFilter_apply_def)

theorem Conv2dFilter_kernel_size_normalization_witness:
  "ModuleFilter_apply (Conv2dFilter_init (Some [PyInt 3]))
      (Conv2d (PyTuple [PyInt 3, PyInt 3])) ''conv1'' ''block1.conv1'' = Inr True
   \<and> ModuleFilter_apply (Conv2dFilter_init (Some [PyInt 3]))
      (Conv2d (PyTuple [PyInt 3, PyInt 5])) ''conv1'' ''block1.conv1'' = Inr False
   \<and> ModuleFilter_apply (Conv2dFilter_init None)
      (Conv2d (PyTuple [PyInt 7, PyInt 7])) ''conv1'' ''block1.conv1'' = Inr True"
proof -
  have a: "is_Conv2d (Conv2d k) \<and> conv_attrs (Conv2d k) = Some (example_attrs k)
        \<and> kernel_size (example_attrs k) = k" for k
    by (simp add: Conv2d_def example_attrs_def)
  have b: "is_Conv2d (Conv2d k)" for k
    by (simp add: Conv2d_def)
  note t = Conv2dFilter_kernel_size_normalization
  have 1: "ModuleFilter_apply (Conv2dFilter_init (Some [PyInt 3]))
      (Conv2d (PyTuple [PyInt 3, PyInt 3])) ''conv1'' ''block1.conv1'' = Inr True"
    by (rule mp [OF conjunct1 [OF t] a])
  have 2: "ModuleFilter_apply (Conv2dFilter_init (Some [PyInt 3]))
      (Conv2d (PyTuple [PyInt 3, PyInt 5])) ''conv1'' ''block1.conv1'' = Inr False"
    by (rule mp [OF conjunct1 [OF conjunct2 [OF t]] a])
  have 3: "ModuleFilter_apply (Conv2dFilter_init None)
      (Conv2d (PyTuple [PyInt 7, PyInt 7])) ''conv1'' ''block1.conv1'' = Inr True"
    by (rule mp [OF conjunct2 [OF conjunct2 [OF conjunct2 [OF t]]] b])
  show ?thesis by (rule conjI [OF 1 conjI [OF 2 3]])
qed

section \<open>Properties of add_rule\<close>

text \<open>
  C8. \<open>add_rule\<close> raises \<open>TypeError\<close> if and only if its arguments are neither a single
  \<open>ModuleReplacementRule\<close> nor a \<open>ModuleFilter\<close> followed by a \<open>ModuleTransformer\<close>; it raises
  nothing else, and when it raises the state (the rule list with it) is unchanged; on
  success exactly one rule, the given one or the pair, is appended at the end of the list.
\<close>

theorem add_rule_TypeError_iff:
  "(fst (ModuleReplacer_add_rule w args) = Inl TypeError \<longleftrightarrow>
      \<not> ((\<exists>r. args = [RuleArg r]) \<or> (\<exists>f t. args = [FilterArg f, TransformerArg t])))
   \<and> (\<forall>e. fst (ModuleReplacer_add_rule w args) = Inl e \<longrightarrow>
         e = TypeError \<and> snd (ModuleReplacer_add_rule w args) = w)
   \<and> (\<forall>r. args = [RuleArg r] \<longrightarrow>
         ModuleReplacer_add_rule w args =
           (Inr (), w\<lparr>replacer := (replacer w)\<lparr>rules := rules (replacer w) @ [r]\<rparr>\<rparr>))
   \<and> (\<forall>f t. args = [FilterArg f, TransformerArg t] \<longrightarrow>
         ModuleReplacer_add_rule w args =
           (Inr (), w\<lparr>replacer := (replacer w)\<lparr>rules :=
              rules (replacer w) @ [\<lparr>rule_filter = f, rule_transformer = t\<rparr>]\<rparr>\<rparr>))"
  by (cases args rule: rule_of_args.cases) (simp_all add: ModuleReplacer_add_rule_def)

theorem add_rule_TypeError_iff_witness:
  "fst (ModuleReplacer_add_rule (fresh (ModuleReplacer_init 0))
          [TransformerArg RegularizationMethodTransformer, FilterArg ModelFilter]) = Inl TypeError
   \<and> snd (ModuleReplacer_add_rule (fresh (ModuleReplacer_init 0))
          [TransformerArg RegularizationMethodTransformer, FilterArg ModelFilter])
       = fresh (ModuleReplacer_init 0)
   \<and> rules (replacer (snd (ModuleReplacer_add_rule (fresh (ModuleReplacer_init 0))
          [FilterArg ModelFilter, TransformerArg RegularizationMethodTransformer])))
       = rules (replacer (fresh (ModuleReplacer_init 0))) @
         [\<lparr>rule_filter = ModelFilter, rule_transformer = RegularizationMethodTransformer\<rparr>]"
proof -
  define w where "w = fresh (ModuleReplacer_init 0)"
  define bad where "bad = [TransformerArg RegularizationMethodTransformer, FilterArg ModelFilter]"
  define good where "good = [FilterArg ModelFilter, TransformerArg RegularizationMethodTransformer]"
  have n: "\<not> ((\<exists>r. bad = [RuleArg r]) \<or> (\<exists>f t. bad = [FilterArg f, TransformerArg t]))"
    by (simp add: bad_def)
  have 1: "fst (ModuleReplacer_add_rule w bad) = Inl TypeError"
    by (rule iffD2 [OF conjunct1 [OF add_rule_TypeError_iff] n])
  have 2: "snd (ModuleReplacer_add_rule w bad) = w"
    by (rule conjunct2 [OF mp [OF spec [OF conjunct1 [OF conjunct2
          [OF add_rule_TypeError_iff]]] 1]])
  have "ModuleReplacer_add_rule w good =
      (Inr (), w\<lparr>replacer := (replacer w)\<lparr>rules := rules (replacer w) @
         [\<lparr>rule_filter = ModelFilter, rule_transformer = RegularizationMethodTransformer\<rparr>]\<rparr>\<rparr>)"
    by (rule mp [OF spec [OF spec [OF conjunct2 [OF conjunct2 [OF conjunct2
          [OF add_rule_TypeError_iff]]]]] good_def])
  then have 3: "rules (replacer (snd (ModuleReplacer_add_rule w good))) = rules (replacer w) @
         [\<lparr>rule_filter = ModelFilter, rule_transformer = RegularizationMethodTransformer\<rparr>]"
    by simp
  show ?thesis
    using 1 2 3 unfolding w_def bad_def good_def by (intro conjI)
qed

section \<open>Properties of the regularization method\<close>

lemma try_reg_loss_cong:
  "own_reg_loss x = own_reg_loss y \<Longrightarrow> try_reg_loss x = try_reg_loss y"
  by (simp add: try_reg_loss_def)

lemma reg_loss_loop_cong:
  "map own_reg_loss xs = map own_reg_loss ys \<Longrightarrow> reg_loss_loop l xs = reg_loss_loop l ys"
proof (induction xs arbitrary: ys l)
  case Nil
  then show ?case by simp
next
  case (Cons x xs)
  then obtain y ys' where ys: "ys = y # ys'" "own_reg_loss x = own_reg_loss y"
     "map own_reg_loss xs = map own_reg_loss ys'" by (cases ys) auto
  have t: "try_reg_loss x = try_reg_loss y" using ys(2) by (rule try_reg_loss_cong)
  show ?case using Cons.IH[OF ys(3)] by (simp add: ys(1) t split: sum.splits option.splits)
qed

lemma reg_loss_loop_skip:
  "\<forall>x\<in>set pre. own_reg_loss x = None \<Longrightarrow> reg_loss_loop l (pre @ rest) = reg_loss_loop l rest"
  by (induction pre) (simp_all add: try_reg_loss_def)

lemma modules_attach_reg_loss:
  "map own_reg_loss (modules (attach_reg_loss m)) = map own_reg_loss (modules m)"
  by (cases m) simp

lemma has_reg_loss_attach: "has_reg_loss (attach_reg_loss m)"
  by (cases m) simp

lemma call_reg_loss_attach:
  "call_reg_loss (attach_reg_loss m) = reg_loss_loop (PyFloat 0) (modules m)"
  unfolding call_reg_loss_def reg_loss_def
  using reg_loss_loop_cong[OF modules_attach_reg_loss] by (simp add: has_reg_loss_attach)

text \<open>
  C7 (regularization aggregation). Let \<open>model'\<close> be what \<open>RegularizationMethodTransformer\<close>
  returns for \<open>model\<close>. If exactly one module \<open>d\<close> among \<open>model\<close> and its descendants has a
  \<open>_reg_loss\<close> method, and that method returns 2.5, then \<open>model'.reg_loss()\<close> returns 2.5: the
  modules before and after \<open>d\<close>, which lack the method, are skipped without error. If no
  module has the method, \<open>model'.reg_loss()\<close> returns the seed 0.0.
\<close>

theorem reg_loss_aggregation:
  assumes "RegularizationMethodTransformer_apply model name full_name = Inr model'"
  shows "(modules model = pre @ d # post \<and> own_reg_loss d = Some (Inr (PyFloat (5 / 2))) \<and>
           (\<forall>x\<in>set (pre @ post). own_reg_loss x = None)
           \<longrightarrow> call_reg_loss model' = Inr (PyFloat (5 / 2)))
       \<and> ((\<forall>x\<in>set (modules model). own_reg_loss x = None)
           \<longrightarrow> call_reg_loss model' = Inr (PyFloat 0))"
proof -
  have r: "model' = attach_reg_loss model"
    using assms by (simp add: RegularizationMethodTransformer_apply_def)
  have c: "call_reg_loss model' = reg_loss_loop (PyFloat 0) (modules model)"
    unfolding r by (rule call_reg_loss_attach)
  have a: "call_reg_loss model' = Inr (PyFloat (5 / 2))"
    if "modules model = pre @ d # post" "own_reg_loss d = Some (Inr (PyFloat (5 / 2)))"
       "\<forall>x\<in>set (pre @ post). own_reg_loss x = None"
  proof -
    have p: "\<forall>x\<in>set pre. own_reg_loss x = None" and q: "\<forall>x\<in>set post. own_reg_loss x = None"
      using that(3) by auto
    have e: "reg_loss_loop (PyFloat (5/2)) (post @ []) = reg_loss_loop (PyFloat (5/2)) []"
      using q by (rule reg_loss_loop_skip)
    have "reg_loss_loop (PyFloat 0) (pre @ d # post) = reg_loss_loop (PyFloat 0) (d # post)"
      using p by (rule reg_loss_loop_skip)
    also have "\<dots> = reg_loss_loop (PyFloat (5/2)) post"
      by (simp add: try_reg_loss_def that(2) accumulate_def)
    also have "\<dots> = Inr (PyFloat (5/2))" using e by simp
    finally show ?thesis by (simp add: c that(1))
  qed
  have b: "call_reg_loss model' = Inr (PyFloat 0)"
    if "\<forall>x\<in>set (modules model). own_reg_loss x = None"
    using reg_loss_loop_skip[OF that, of "PyFloat 0" "[]"] by (simp add: c)
  show ?thesis using a b by blast
qed

theorem reg_loss_aggregation_witness:
  "call_reg_loss (attach_reg_loss (container ''Net''
      [(''act'', Some ReLU), (''layer'', Some (layer_with_loss (PyFloat (5 / 2)))),
       (''conv'', Some (Conv2d (PyTuple [PyInt 3, PyInt 3])))])) = Inr (PyFloat (5 / 2))
   \<and> call_reg_loss (attach_reg_loss (container ''Net''
      [(''act'', Some ReLU), (''conv'', Some (Conv2d (PyTuple [PyInt 3, PyInt 3])))]))
      = Inr (PyFloat 0)"
proof -
  define conv where "conv = Conv2d (PyTuple [PyInt 3, PyInt 3])"
  define layer where "layer = layer_with_loss (PyFloat (5 / 2))"
  define m1 where "m1 = container ''Net''
    [(''act'', Some ReLU), (''layer'', Some layer), (''conv'', Some conv)]"
  define m2 where "m2 = container ''Net'' [(''act'', Some ReLU), (''conv'', Some conv)]"
  have t: "RegularizationMethodTransformer_apply m [] [] = Inr (attach_reg_loss m)" for m
    by (simp add: RegularizationMethodTransformer_apply_def)
  have c: "modules conv = [conv]" "modules ReLU = [ReLU]" "modules layer = [layer]"
    by (simp_all add: conv_def layer_def ReLU_def layer_with_loss_def Conv2d_def)
  have m1: "modules m1 = [m1, ReLU] @ layer # [conv]"
    unfolding m1_def container_def by (simp add: c)
  have m2: "modules m2 = [m2, ReLU, conv]"
    unfolding m2_def container_def by (simp add: c)
  have o: "own_reg_loss layer = Some (Inr (PyFloat (5 / 2)))" "own_reg_loss ReLU = None"
    "own_reg_loss conv = None" "own_reg_loss m1 = None" "own_reg_loss m2 = None"
    by (simp_all add: m1_def m2_def conv_def layer_def container_def ReLU_def
          layer_with_loss_def Conv2d_def)
  have h1: "\<forall>x\<in>set ([m1, ReLU] @ [conv]). own_reg_loss x = None"
    by (simp add: o)
  have h2: "\<forall>x\<in>set (modules m2). own_reg_loss x = None"
    by (simp add: m2 o)
  have 1: "call_reg_loss (attach_reg_loss m1) = Inr (PyFloat (5 / 2))"
    by (rule mp [OF conjunct1 [OF reg_loss_aggregation [OF t]] conjI [OF m1 conjI [OF o(1) h1]]])
  have 2: "call_reg_loss (attach_reg_loss m2) = Inr (PyFloat 0)"
    by (rule mp [OF conjunct2 [OF reg_loss_aggregation [OF t]] h2])
  show ?thesis
    using 1 2 unfolding m1_def m2_def conv_def layer_def by (rule conjI)
qed






section \<open>Properties of the replacer\<close>

lemma node_at_Cons:
  "node_at m (n # ns) x \<longleftrightarrow> (\<exists>c. (n, Some c) \<in> set (named_children m) \<and> node_at c ns x)"
  by (auto simp: list_ex_iff split: option.splits)

declare node_at.simps(2) [simp del]

lemma children_loop_Some:
  "children_loop w p ((cn, Some child) # rest) n m =
     (case visit_child w p cn child of
        (Inl e, w2) \<Rightarrow> (Inl e, w2)
      | (Inr (c, nc), w2) \<Rightarrow> children_loop w2 p rest (n + c) (setattr m cn nc))"
  by (simp add: visit_child_def split: prod.splits sum.splits)

declare children_loop.simps(3) [simp del]

lemma children_loop_Some_Inl:
  "visit_child w p cn child = (Inl e, w2) \<Longrightarrow>
   children_loop w p ((cn, Some child) # rest) n m = (Inl e, w2)"
  by (simp add: children_loop_Some)

lemma children_loop_Some_Inr:
  "visit_child w p cn child = (Inr (c, nc), w2) \<Longrightarrow>
   children_loop w p ((cn, Some child) # rest) n m =
     children_loop w2 p rest (n + c) (setattr m cn nc)"
  by (simp add: children_loop_Some)

lemma apply_recursively_unfold:
  "ModuleReplacer_apply_recursively w m p = children_loop w p (named_children m) 0 m"
  by (cases m) simp

lemma traversal_induct [case_names Module Nil Skip Child]:
  assumes Module: "\<And>w m p. Q w p (named_children m) 0 m \<Longrightarrow> P w m p"
    and Nil: "\<And>w p n m. Q w p [] n m"
    and Skip: "\<And>w p cn rest n m. Q w p rest n m \<Longrightarrow> Q w p ((cn, None) # rest) n m"
    and Child: "\<And>w p cn child rest n m.
       (\<And>w1 nc. ModuleReplacer_apply_rules w child cn (p @ cn) = (Inr (0, nc), w1)
           \<Longrightarrow> P w1 child (p @ cn @ ''.'')) \<Longrightarrow>
       (\<And>w2 c nc. visit_child w p cn child = (Inr (c, nc), w2)
           \<Longrightarrow> Q w2 p rest (n + c) (setattr m cn nc)) \<Longrightarrow>
       Q w p ((cn, Some child) # rest) n m"
  shows "P w0 m0 p0" and "Q w1 p1 chs1 n1 m1"
proof (induction w0 m0 p0 and w1 p1 chs1 n1 m1
       rule: ModuleReplacer_apply_recursively_children_loop.induct)
  case (1 w tn ic ca hr rl chs name_prefix)
  then show ?case using Module[of w name_prefix "Module tn ic ca hr rl chs"] by simp
next
  case (2 w name_prefix replaced_count m)
  show ?case by (rule Nil)
next
  case (3 w name_prefix child_name rest replaced_count m)
  then show ?case by (rule Skip)
next
  case (4 w name_prefix child_name child rest replaced_count m)
  show ?case
  proof (rule Child)
    fix w1 nc
    assume a: "ModuleReplacer_apply_rules w child child_name (name_prefix @ child_name) = (Inr (0, nc), w1)"
    show "P w1 child (name_prefix @ child_name @ ''.'')"
      by (rule 4(1)[OF refl a[symmetric] refl refl refl])
  next
    fix w2 c nc
    assume v: "visit_child w name_prefix child_name child = (Inr (c, nc), w2)"
    obtain r1 w1 where a: "ModuleReplacer_apply_rules w child child_name (name_prefix @ child_name) = (r1, w1)"
      by (cases "ModuleReplacer_apply_rules w child child_name (name_prefix @ child_name)")
    from v a obtain c1 nc1 where r1: "r1 = Inr (c1, nc1)"
      by (cases r1) (auto simp: visit_child_def)
    have s: "(Inr (c, nc), w2) = (if c1 = 0
            then ModuleReplacer_apply_recursively w1 child (name_prefix @ child_name @ ''.'')
            else (Inr (c1, nc1), w1))"
      using v a r1 by (simp add: visit_child_def)
    show "Q w2 name_prefix rest (replaced_count + c) (setattr m child_name nc)"
      by (rule 4(2)[OF refl a[symmetric] r1 refl s refl refl])
  qed
qed

text \<open>The three ways a child is visited.\<close>

lemma visit_child_cases:
  assumes "visit_child w p cn child = (r, w2)"
  obtains (Raise) e where "ModuleReplacer_apply_rules w child cn (p @ cn) = (Inl e, w2)" "r = Inl e"
  | (Match) c nc where "ModuleReplacer_apply_rules w child cn (p @ cn) = (Inr (c, nc), w2)"
        "c \<noteq> 0" "r = Inr (c, nc)"
  | (Descend) nc w1 where "ModuleReplacer_apply_rules w child cn (p @ cn) = (Inr (0, nc), w1)"
        "ModuleReplacer_apply_recursively w1 child (p @ cn @ ''.'') = (r, w2)"
proof -
  obtain r1 w1 where a: "ModuleReplacer_apply_rules w child cn (p @ cn) = (r1, w1)"
    by (cases "ModuleReplacer_apply_rules w child cn (p @ cn)")
  show ?thesis
  proof (cases r1)
    case (Inl e)
    have "r = Inl e" "w1 = w2" using assms a Inl by (simp_all add: visit_child_def)
    then show ?thesis using a Inl by (intro Raise[of e]) simp_all
  next
    case (Inr b)
    obtain c nc where b: "b = (c, nc)" by (cases b)
    show ?thesis
    proof (cases "c = 0")
      case True
      have "ModuleReplacer_apply_recursively w1 child (p @ cn @ ''.'') = (r, w2)"
        using assms a Inr b True by (simp add: visit_child_def)
      then show ?thesis using a Inr b True by (intro Descend[of nc w1]) simp_all
    next
      case False
      have "r = Inr (c, nc)" "w1 = w2" using assms a Inr b False by (simp_all add: visit_child_def)
      then show ?thesis using a Inr b False by (intro Match[of c nc]) simp_all
    qed
  qed
qed

subsection \<open>apply_rules\<close>

lemma apply_rules_loop_replacer:
  "replacer (snd (apply_rules_loop i rs w m name full_name)) = replacer w"
  by (induction rs arbitrary: i w) (auto simp: Let_def print_def split: sum.splits bool.splits)

lemma apply_rules_replacer:
  "ModuleReplacer_apply_rules w m name full_name = (r, w1) \<Longrightarrow> replacer w1 = replacer w"
  using apply_rules_loop_replacer[of 0 "rules (replacer w)" w m name full_name]
  by (simp add: ModuleReplacer_apply_rules_def)

lemma upt_Suc_add: "[i..<Suc (i + n)] = i # [Suc i..<Suc (i + n)]"
  by (simp add: upt_conv_Cons del: upt_Suc)

lemma apply_rules_loop_no_match:
  "\<forall>r\<in>set rs. ModuleFilter_apply (rule_filter r) m name full_name = Inr False \<Longrightarrow>
   apply_rules_loop i rs w m name full_name =
     (Inr (0, m), w\<lparr>calls := calls w @ map (\<lambda>j. FilterCall j m name full_name) [i..<i + length rs]\<rparr>)"
proof (induction rs arbitrary: i w)
  case Nil
  then show ?case by simp
next
  case (Cons r rs)
  show ?case using Cons by (simp add: Let_def upt_Suc_add del: upt_Suc)
qed

lemma apply_rules_loop_first_match:
  assumes "\<forall>q\<in>set pre. ModuleFilter_apply (rule_filter q) m name full_name = Inr False"
    and "ModuleFilter_apply (rule_filter r) m name full_name = Inr True"
  shows "apply_rules_loop i (pre @ r # post) w m name full_name =
     (let w2 = w\<lparr>calls := calls w @ map (\<lambda>j. FilterCall j m name full_name) [i..<i + length pre]
                    @ [FilterCall (i + length pre) m name full_name,
                       TransformerCall (i + length pre) m name full_name]\<rparr> in
      case ModuleTransformer_apply (rule_transformer r) m name full_name of
        Inl e \<Rightarrow> (Inl e, w2)
      | Inr m' \<Rightarrow> (Inr (1, m'),
           if verbosity (replacer w) \<ge> 2
           then print (replaced_line (class_name (replacer w)) full_name (type_name m) (type_name m')) w2
           else w2))"
  using assms(1)
proof (induction pre arbitrary: i w)
  case Nil
  then show ?case using assms(2) by (simp add: Let_def split: sum.splits)
next
  case (Cons q pre)
  have q: "ModuleFilter_apply (rule_filter q) m name full_name = Inr False"
    using Cons.prems by simp
  have IH: "apply_rules_loop (Suc i) (pre @ r # post)
      (w\<lparr>calls := calls w @ [FilterCall i m name full_name]\<rparr>) m name full_name = 
      (let w2 = (w\<lparr>calls := calls w @ [FilterCall i m name full_name]\<rparr>)\<lparr>calls := calls (w\<lparr>calls := calls w @ [FilterCall i m name full_name]\<rparr>) @ map (\<lambda>j. FilterCall j m name full_name) [Suc i..<Suc i + length pre]
                    @ [FilterCall (Suc i + length pre) m name full_name,
                       TransformerCall (Suc i + length pre) m name full_name]\<rparr> in
      case ModuleTransformer_apply (rule_transformer r) m name full_name of
        Inl e \<Rightarrow> (Inl e, w2)
      | Inr m' \<Rightarrow> (Inr (1, m'),
           if verbosity (replacer (w\<lparr>calls := calls w @ [FilterCall i m name full_name]\<rparr>)) \<ge> 2
           then print (replaced_line (class_name (replacer (w\<lparr>calls := calls w @ [FilterCall i m name full_name]\<rparr>))) full_name (type_name m) (type_name m')) w2
           else w2))"
    using Cons.prems by (intro Cons.IH) simp
  show ?case
    by (simp add: q IH upt_Suc_add Let_def del: upt_Suc split: sum.splits)
qed

lemma count_calls_append [simp]: "count_calls (xs @ ys) = count_calls xs + count_calls ys"
  by (simp add: count_calls_def)

lemma count_calls_Nil [simp]: "count_calls [] = 0"
  by (simp add: count_calls_def)

lemma count_calls_Cons [simp]:
  "count_calls (ev # cs) = (if is_TransformerCall ev then Suc (count_calls cs) else count_calls cs)"
  by (simp add: count_calls_def)

lemma apply_rules_loop_calls:
  "\<exists>cs. calls (snd (apply_rules_loop i rs w m name full_name)) = calls w @ cs
     \<and> (\<forall>ev\<in>set cs. call_module ev = m \<and> call_name ev = name \<and> call_full_name ev = full_name)
     \<and> count_calls cs \<le> 1
     \<and> (\<forall>c m'. fst (apply_rules_loop i rs w m name full_name) = Inr (c, m')
          \<longrightarrow> c = count_calls cs)"
proof (induction rs arbitrary: i w)
  case Nil
  then show ?case by simp
next
  case (Cons r rs)
  let ?w1 = "w\<lparr>calls := calls w @ [FilterCall i m name full_name]\<rparr>"
  show ?case
  proof (cases "ModuleFilter_apply (rule_filter r) m name full_name")
    case (Inl e)
    then show ?thesis by (simp add: Let_def)
  next
    case (Inr b)
    show ?thesis
    proof (cases b)
      case True
      show ?thesis
        by (cases "ModuleTransformer_apply (rule_transformer r) m name full_name")
           (simp_all add: Inr True Let_def print_def)
    next
      case False
      from Cons[of "Suc i" ?w1] obtain cs where
        cs: "calls (snd (apply_rules_loop (Suc i) rs ?w1 m name full_name)) = calls ?w1 @ cs
          \<and> (\<forall>ev\<in>set cs. call_module ev = m \<and> call_name ev = name \<and> call_full_name ev = full_name)
          \<and> count_calls cs \<le> 1
          \<and> (\<forall>c m'. fst (apply_rules_loop (Suc i) rs ?w1 m name full_name) = Inr (c, m')
             \<longrightarrow> c = count_calls cs)" ..
      show ?thesis
        by (rule exI[of _ "FilterCall i m name full_name # cs"])
           (use cs in \<open>simp add: Inr False Let_def\<close>)
    qed
  qed
qed

lemma apply_rules_calls:
  assumes "ModuleReplacer_apply_rules w m name full_name = (r, w1)"
  shows "\<exists>cs. calls w1 = calls w @ cs
     \<and> (\<forall>ev\<in>set cs. call_module ev = m \<and> call_name ev = name \<and> call_full_name ev = full_name)
     \<and> count_calls cs \<le> 1
     \<and> (\<forall>c m'. r = Inr (c, m') \<longrightarrow> c = count_calls cs)"
  using apply_rules_loop_calls[of 0 "rules (replacer w)" w m name full_name] assms
  unfolding ModuleReplacer_apply_rules_def by simp

subsection \<open>The traversal\<close>

lemma traversal_replacer:
  "replacer (snd (ModuleReplacer_apply_recursively w m p)) = replacer w"
  "replacer (snd (children_loop w' p' chs n macc)) = replacer w'"
proof (induction w m p and w' p' chs n macc rule: traversal_induct)
  case (Module w m p)
  then show ?case by (simp add: apply_recursively_unfold)
next
  case (Nil w p n m)
  then show ?case by simp
next
  case (Skip w p cn rest n m)
  then show ?case by simp
next
  case (Child w p cn child rest n m)
  obtain r w2 where v: "visit_child w p cn child = (r, w2)" by (cases "visit_child w p cn child")
  have w2: "replacer w2 = replacer w"
    using v
  proof (cases rule: visit_child_cases)
    case (Raise e)
    then show ?thesis using apply_rules_replacer by blast
  next
    case (Match c nc)
    then show ?thesis using apply_rules_replacer by blast
  next
    case (Descend nc w1)
    have "replacer w1 = replacer w" using Descend(1) by (rule apply_rules_replacer)
    moreover have "replacer w2 = replacer w1" using Child(1)[OF Descend(1)] Descend(2) by simp
    ultimately show ?thesis by simp
  qed
  show ?case
  proof (cases r)
    case (Inl e)
    then show ?thesis using v w2 by (simp add: children_loop_Some_Inl)
  next
    case (Inr b)
    obtain c nc where b: "b = (c, nc)" by (cases b)
    show ?thesis
      using Child(2)[OF v[unfolded Inr b]] w2
      by (simp add: children_loop_Some_Inr[OF v[unfolded Inr b]])
  qed
qed

lemma dot_join_Cons: "ns \<noteq> [] \<Longrightarrow> dot_join (n # ns) = n @ ''.'' @ dot_join ns"
  by (cases ns) simp_all

lemma on_path_from_children:
  assumes "on_path_from p (named_children m) ev"
  shows "on_path p m ev"
proof -
  from assms obtain cn c where c: "(cn, Some c) \<in> set (named_children m)"
    and d: "(call_module ev = c \<and> call_name ev = cn \<and> call_full_name ev = p @ cn)
       \<or> on_path (p @ cn @ ''.'') c ev"
    unfolding on_path_from_def by blast
  from d show ?thesis
  proof
    assume a: "call_module ev = c \<and> call_name ev = cn \<and> call_full_name ev = p @ cn"
    have "node_at m [cn] (call_module ev)" using c a by (auto simp: node_at_Cons)
    then show ?thesis unfolding on_path_def using a by (intro exI[of _ "[cn]"]) simp
  next
    assume "on_path (p @ cn @ ''.'') c ev"
    then obtain names where n: "names \<noteq> []" "node_at c names (call_module ev)"
      "call_name ev = last names" "call_full_name ev = (p @ cn @ ''.'') @ dot_join names"
      unfolding on_path_def by blast
    have "node_at m (cn # names) (call_module ev)" using c n(2) by (auto simp: node_at_Cons)
    then show ?thesis unfolding on_path_def using n
      by (intro exI[of _ "cn # names"]) (simp add: dot_join_Cons)
  qed
qed

lemma on_path_from_here:
  "call_module ev = c \<and> call_name ev = cn \<and> call_full_name ev = p @ cn \<Longrightarrow>
   on_path_from p ((cn, Some c) # rest) ev"
  unfolding on_path_from_def by (intro exI[of _ cn] exI[of _ c]) simp

lemma on_path_from_below:
  "on_path (p @ cn @ ''.'') c ev \<Longrightarrow> on_path_from p ((cn, Some c) # rest) ev"
  unfolding on_path_from_def by (intro exI[of _ cn] exI[of _ c]) simp

lemma on_path_from_mono:
  "on_path_from p chs ev \<Longrightarrow> set chs \<subseteq> set chs' \<Longrightarrow> on_path_from p chs' ev"
  unfolding on_path_from_def by blast

lemma traversal_calls:
  "\<exists>cs. calls (snd (ModuleReplacer_apply_recursively w m p)) = calls w @ cs
      \<and> (\<forall>ev\<in>set cs. on_path p m ev)
      \<and> (\<forall>c m'. fst (ModuleReplacer_apply_recursively w m p) = Inr (c, m') \<longrightarrow> c = count_calls cs)"
  "\<exists>cs. calls (snd (children_loop w' p' chs n macc)) = calls w' @ cs
      \<and> (\<forall>ev\<in>set cs. on_path_from p' chs ev)
      \<and> (\<forall>c m'. fst (children_loop w' p' chs n macc) = Inr (c, m') \<longrightarrow> c = n + count_calls cs)"
proof (induction w m p and w' p' chs n macc rule: traversal_induct)
  case (Module w m p)
  then obtain cs where cs: "calls (snd (children_loop w p (named_children m) 0 m)) = calls w @ cs"
    "\<forall>ev\<in>set cs. on_path_from p (named_children m) ev"
    "\<forall>c m'. fst (children_loop w p (named_children m) 0 m) = Inr (c, m') \<longrightarrow> c = 0 + count_calls cs"
    by blast
  show ?case
    by (rule exI[of _ cs]) (use cs on_path_from_children in \<open>auto simp: apply_recursively_unfold\<close>)
next
  case (Nil w p n m)
  then show ?case by simp
next
  case (Skip w p cn rest n m)
  then obtain cs where cs: "calls (snd (children_loop w p rest n m)) = calls w @ cs"
    "\<forall>ev\<in>set cs. on_path_from p rest ev"
    "\<forall>c m'. fst (children_loop w p rest n m) = Inr (c, m') \<longrightarrow> c = n + count_calls cs"
    by blast
  have "\<forall>ev\<in>set cs. on_path_from p ((cn, None) # rest) ev"
    using cs(2) on_path_from_mono[of p rest _ "(cn, None) # rest"] by auto
  then show ?case using cs by (intro exI[of _ cs]) simp
next
  case (Child w p cn child rest n m)
  let ?chs = "(cn, Some child) # rest"
  obtain r w2 where v: "visit_child w p cn child = (r, w2)" by (cases "visit_child w p cn child")
  have V: "\<exists>cs. calls w2 = calls w @ cs \<and> (\<forall>ev\<in>set cs. on_path_from p ?chs ev)
      \<and> (\<forall>c nc. r = Inr (c, nc) \<longrightarrow> c = count_calls cs)"
    using v
  proof (cases rule: visit_child_cases)
    case (Raise e)
    from apply_rules_calls[OF Raise(1)] obtain cs where cs: "calls w2 = calls w @ cs
       \<and> (\<forall>ev\<in>set cs. call_module ev = child \<and> call_name ev = cn \<and> call_full_name ev = p @ cn)
       \<and> count_calls cs \<le> 1
       \<and> (\<forall>c m'. (Inl e :: error + nat \<times> module) = Inr (c, m') \<longrightarrow> c = count_calls cs)" ..
    have "\<forall>ev\<in>set cs. on_path_from p ?chs ev"
      using cs on_path_from_here[of _ child cn p rest] by blast
    then show ?thesis using cs Raise(2) by (intro exI[of _ cs]) simp
  next
    case (Match c nc)
    from apply_rules_calls[OF Match(1)] obtain cs where cs: "calls w2 = calls w @ cs
       \<and> (\<forall>ev\<in>set cs. call_module ev = child \<and> call_name ev = cn \<and> call_full_name ev = p @ cn)
       \<and> count_calls cs \<le> 1
       \<and> (\<forall>c' m'. (Inr (c, nc) :: error + nat \<times> module) = Inr (c', m') \<longrightarrow> c' = count_calls cs)" ..
    have "\<forall>ev\<in>set cs. on_path_from p ?chs ev"
      using cs on_path_from_here[of _ child cn p rest] by blast
    moreover have "c = count_calls cs" using cs by simp
    ultimately show ?thesis using cs Match(3) by (intro exI[of _ cs]) simp
  next
    case (Descend nc w1)
    from apply_rules_calls[OF Descend(1)] obtain cs1 where cs1: "calls w1 = calls w @ cs1
       \<and> (\<forall>ev\<in>set cs1. call_module ev = child \<and> call_name ev = cn \<and> call_full_name ev = p @ cn)
       \<and> count_calls cs1 \<le> 1
       \<and> (\<forall>c' m'. (Inr (0, nc) :: error + nat \<times> module) = Inr (c', m') \<longrightarrow> c' = count_calls cs1)" ..
    have z: "count_calls cs1 = 0" using cs1 by simp
    from Child(1)[OF Descend(1)] obtain cs2 where cs2:
      "calls (snd (ModuleReplacer_apply_recursively w1 child (p @ cn @ ''.''))) = calls w1 @ cs2
      \<and> (\<forall>ev\<in>set cs2. on_path (p @ cn @ ''.'') child ev)
      \<and> (\<forall>c m'. fst (ModuleReplacer_apply_recursively w1 child (p @ cn @ ''.'')) = Inr (c, m')
            \<longrightarrow> c = count_calls cs2)" ..
    have a: "\<forall>ev\<in>set cs1. on_path_from p ?chs ev"
      using cs1 on_path_from_here[of _ child cn p rest] by blast
    have b: "\<forall>ev\<in>set cs2. on_path_from p ?chs ev"
      using cs2 on_path_from_below[of p cn child _ rest] by blast
    show ?thesis
      using cs1 cs2 a b z Descend(2) by (intro exI[of _ "cs1 @ cs2"]) (simp add: ball_Un)
  qed
  then obtain cs where cs: "calls w2 = calls w @ cs" "\<forall>ev\<in>set cs. on_path_from p ?chs ev"
    "\<forall>c nc. r = Inr (c, nc) \<longrightarrow> c = count_calls cs" by blast
  show ?case
  proof (cases r)
    case (Inl e)
    then show ?thesis using v cs by (intro exI[of _ cs]) (simp add: children_loop_Some_Inl)
  next
    case (Inr b)
    obtain c nc where b: "b = (c, nc)" by (cases b)
    note v' = v[unfolded Inr b]
    from Child(2)[OF v'] obtain cs' where cs':
      "calls (snd (children_loop w2 p rest (n + c) (setattr m cn nc))) = calls w2 @ cs'"
      "\<forall>ev\<in>set cs'. on_path_from p rest ev"
      "\<forall>c' m'. fst (children_loop w2 p rest (n + c) (setattr m cn nc)) = Inr (c', m')
         \<longrightarrow> c' = n + c + count_calls cs'"
      by blast
    have "\<forall>ev\<in>set cs'. on_path_from p ?chs ev"
      using cs'(2) on_path_from_mono[of p rest _ ?chs] by auto
    moreover have "c = count_calls cs" using cs(3) Inr b by simp
    ultimately show ?thesis
      using cs cs'
      by (intro exI[of _ "cs @ cs'"]) (simp add: children_loop_Some_Inr[OF v'] ball_Un add.assoc)
  qed
qed

lemma new_calls_eq: "calls w' = calls w @ cs \<Longrightarrow> new_calls w w' = cs"
  by (simp add: new_calls_def)

lemma apply_recursively_calls:
  assumes "ModuleReplacer_apply_recursively w m p = (r, w')"
  shows "\<exists>cs. calls w' = calls w @ cs \<and> (\<forall>ev\<in>set cs. on_path p m ev)
      \<and> (\<forall>c m'. r = Inr (c, m') \<longrightarrow> c = count_calls cs)"
  using traversal_calls(1)[of w m p] assms by simp

lemma children_loop_calls:
  assumes "children_loop w p chs n macc = (r, w')"
  shows "\<exists>cs. calls w' = calls w @ cs \<and> (\<forall>ev\<in>set cs. on_path_from p chs ev)
      \<and> (\<forall>c m'. r = Inr (c, m') \<longrightarrow> c = n + count_calls cs)"
  using traversal_calls(2)[of w p chs n macc] assms by simp

lemma apply_recursively_replacer:
  "ModuleReplacer_apply_recursively w m p = (r, w') \<Longrightarrow> replacer w' = replacer w"
  using traversal_replacer(1)[of w m p] by simp

lemma children_loop_replacer:
  "children_loop w p chs n macc = (r, w') \<Longrightarrow> replacer w' = replacer w"
  using traversal_replacer(2)[of w p chs n macc] by simp

lemma visit_child_replacer:
  assumes "visit_child w p cn child = (r, w2)"
  shows "replacer w2 = replacer w"
  using assms
proof (cases rule: visit_child_cases)
  case (Raise e)
  then show ?thesis using apply_rules_replacer by blast
next
  case (Match c nc)
  then show ?thesis using apply_rules_replacer by blast
next
  case (Descend nc w1)
  then show ?thesis using apply_rules_replacer apply_recursively_replacer by metis
qed

subsection \<open>apply\<close>

lemma apply_traverse_replacer: "replacer (snd (apply_traverse w m)) = replacer w"
proof -
  obtain r1 w1 where a: "ModuleReplacer_apply_rules w m [] [] = (r1, w1)"
    by (cases "ModuleReplacer_apply_rules w m [] []")
  have w1: "replacer w1 = replacer w" using a by (rule apply_rules_replacer)
  show ?thesis
  proof (cases r1)
    case (Inl e)
    then show ?thesis using a w1 by (simp add: apply_traverse_def)
  next
    case (Inr b)
    obtain c m1 where b: "b = (c, m1)" by (cases b)
    obtain r2 w2 where t: "ModuleReplacer_apply_recursively w1 m1 [] = (r2, w2)"
      by (cases "ModuleReplacer_apply_recursively w1 m1 []")
    have "replacer w2 = replacer w1" using t by (rule apply_recursively_replacer)
    then show ?thesis using a Inr b t w1
      by (cases r2) (auto simp: apply_traverse_def)
  qed
qed

text \<open>
  C10. A call of \<open>apply\<close> leaves the replacer unchanged: whether it returns or propagates
  an exception of a filter or a transformer, the rule list, the verbosity and the class of
  the replacer in the state it leaves are those of the state it started in. (Filters and
  transformers are functions of their arguments: they have no access to the replacer.)
\<close>

theorem apply_leaves_replacer_unchanged:
  "replacer (snd (ModuleReplacer_apply w m)) = replacer w"
proof -
  obtain r w' where t: "apply_traverse w m = (r, w')" by (cases "apply_traverse w m")
  have "replacer w' = replacer w" using apply_traverse_replacer[of w m] t by simp
  then show ?thesis using t
    by (cases r) (auto simp: ModuleReplacer_apply_def print_def Let_def)
qed

text \<open>
  C3 (first match wins). If the rule \<open>r\<close> is the first rule of the list whose filter matches
  a node, the calls made for the node are the filters of the rules before \<open>r\<close>, in the
  order of the list, then the filter of \<open>r\<close> and the transformer of \<open>r\<close>: no filter and no
  transformer of a later rule is called, whether or not it would match, and the result is 1
  with the output of the transformer of \<open>r\<close> (or its exception). For any node, at most one
  transformer is called, and the count returned is the number of transformer calls: 0 or 1.
\<close>

theorem apply_rules_first_match_wins:
  assumes "rules (replacer w) = pre @ r # post"
    and "\<forall>q\<in>set pre. ModuleFilter_apply (rule_filter q) m name full_name = Inr False"
    and "ModuleFilter_apply (rule_filter r) m name full_name = Inr True"
  shows "new_calls w (snd (ModuleReplacer_apply_rules w m name full_name)) =
           map (\<lambda>j. FilterCall j m name full_name) [0..<length pre] @
           [FilterCall (length pre) m name full_name,
            TransformerCall (length pre) m name full_name]
       \<and> fst (ModuleReplacer_apply_rules w m name full_name) =
           (case ModuleTransformer_apply (rule_transformer r) m name full_name of
              Inl e \<Rightarrow> Inl e
            | Inr m' \<Rightarrow> Inr (1, m'))
       \<and> count_calls (new_calls w' (snd (ModuleReplacer_apply_rules w' x name' full_name'))) \<le> 1
       \<and> (\<forall>c x'. fst (ModuleReplacer_apply_rules w' x name' full_name') = Inr (c, x') \<longrightarrow>
             c = count_calls (new_calls w' (snd (ModuleReplacer_apply_rules w' x name' full_name')))
             \<and> (c = 0 \<or> c = 1))"
proof -
  let ?cs = "map (\<lambda>j. FilterCall j m name full_name) [0..<length pre] @
           [FilterCall (length pre) m name full_name,
            TransformerCall (length pre) m name full_name]"
  have e: "ModuleReplacer_apply_rules w m name full_name =
     (let w2 = w\<lparr>calls := calls w @ map (\<lambda>j. FilterCall j m name full_name) [0..<0 + length pre]
                    @ [FilterCall (0 + length pre) m name full_name,
                       TransformerCall (0 + length pre) m name full_name]\<rparr> in
      case ModuleTransformer_apply (rule_transformer r) m name full_name of
        Inl e \<Rightarrow> (Inl e, w2)
      | Inr m' \<Rightarrow> (Inr (1, m'),
           if verbosity (replacer w) \<ge> 2
           then print (replaced_line (class_name (replacer w)) full_name (type_name m) (type_name m')) w2
           else w2))"
    unfolding ModuleReplacer_apply_rules_def assms(1)
    by (rule apply_rules_loop_first_match[OF assms(2,3)])
  have c: "calls (snd (ModuleReplacer_apply_rules w m name full_name)) = calls w @ ?cs"
    unfolding e by (simp add: Let_def print_def split: sum.splits)
  have 1: "new_calls w (snd (ModuleReplacer_apply_rules w m name full_name)) = ?cs"
    using c by (rule new_calls_eq)
  have 2: "fst (ModuleReplacer_apply_rules w m name full_name) =
           (case ModuleTransformer_apply (rule_transformer r) m name full_name of
              Inl e \<Rightarrow> Inl e
            | Inr m' \<Rightarrow> Inr (1, m'))"
    unfolding e by (simp add: Let_def split: sum.splits)
  obtain r' w1 where a: "ModuleReplacer_apply_rules w' x name' full_name' = (r', w1)"
    by (cases "ModuleReplacer_apply_rules w' x name' full_name'")
  from apply_rules_calls[OF a] obtain cs where cs: "calls w1 = calls w' @ cs
     \<and> (\<forall>ev\<in>set cs. call_module ev = x \<and> call_name ev = name' \<and> call_full_name ev = full_name')
     \<and> count_calls cs \<le> 1
     \<and> (\<forall>c m'. r' = Inr (c, m') \<longrightarrow> c = count_calls cs)" ..
  have n: "new_calls w' w1 = cs" using cs by (intro new_calls_eq) simp
  have 3: "count_calls (new_calls w' (snd (ModuleReplacer_apply_rules w' x name' full_name'))) \<le> 1"
    using cs by (simp add: a n)
  have 4: "\<forall>c x'. fst (ModuleReplacer_apply_rules w' x name' full_name') = Inr (c, x') \<longrightarrow>
             c = count_calls (new_calls w' (snd (ModuleReplacer_apply_rules w' x name' full_name')))
             \<and> (c = 0 \<or> c = 1)"
    using cs by (auto simp: a n)
  show ?thesis using 1 2 3 4 by blast
qed

theorem apply_rules_first_match_wins_witness:
  "new_calls (fresh (replacer_with three_rules 0))
     (snd (ModuleReplacer_apply_rules (fresh (replacer_with three_rules 0))
            (Conv2d (PyTuple [PyInt 3, PyInt 3])) ''conv1'' ''block1.conv1''))
     = [FilterCall 0 (Conv2d (PyTuple [PyInt 3, PyInt 3])) ''conv1'' ''block1.conv1'',
        FilterCall 1 (Conv2d (PyTuple [PyInt 3, PyInt 3])) ''conv1'' ''block1.conv1'',
        TransformerCall 1 (Conv2d (PyTuple [PyInt 3, PyInt 3])) ''conv1'' ''block1.conv1'']
   \<and> fst (ModuleReplacer_apply_rules (fresh (replacer_with three_rules 0))
            (Conv2d (PyTuple [PyInt 3, PyInt 3])) ''conv1'' ''block1.conv1'')
     = Inr (1, container ''Identity'' [])"
proof -
  define conv where "conv = Conv2d (PyTuple [PyInt 3, PyInt 3])"
  define w where "w = fresh (replacer_with three_rules 0)"
  define r0 where "r0 = \<lparr>rule_filter = Conv2dFilter_init (Some [PyInt 5]),
     rule_transformer = to_module ReLU\<rparr>"
  define r1 where "r1 = \<lparr>rule_filter = Conv2dFilter_init None,
       rule_transformer = to_module (container ''Identity'' [])\<rparr>"
  define r2 where "r2 = \<lparr>rule_filter = match_all, rule_transformer = to_module ReLU\<rparr>"
  have c: "is_Conv2d conv" "conv_attrs conv = Some (example_attrs (PyTuple [PyInt 3, PyInt 3]))"
    by (simp_all add: conv_def Conv2d_def)
  have r: "rules (replacer w) = [r0] @ r1 # [r2]"
    by (simp add: w_def fresh_def replacer_with_def three_rules_def r0_def r1_def r2_def)
  have h1: "\<forall>q\<in>set [r0]. ModuleFilter_apply (rule_filter q) conv ''conv1'' ''block1.conv1''
      = Inr False"
    by (simp add: r0_def Conv2dFilter_init_def Conv2dFilter_apply_def c example_attrs_def)
  have h2: "ModuleFilter_apply (rule_filter r1) conv ''conv1'' ''block1.conv1'' = Inr True"
    by (simp add: r1_def Conv2dFilter_init_def Conv2dFilter_apply_def c)
  have h3: "ModuleFilter_apply (rule_filter r2) conv ''conv1'' ''block1.conv1'' = Inr True"
    by (simp add: r2_def match_all_def)
  note t = apply_rules_first_match_wins [OF r h1 h2]
  have 1: "new_calls w (snd (ModuleReplacer_apply_rules w conv ''conv1'' ''block1.conv1''))
     = [FilterCall 0 conv ''conv1'' ''block1.conv1'', FilterCall 1 conv ''conv1'' ''block1.conv1'',
        TransformerCall 1 conv ''conv1'' ''block1.conv1'']"
    using conjunct1 [OF t] by simp
  have 2: "fst (ModuleReplacer_apply_rules w conv ''conv1'' ''block1.conv1'')
     = Inr (1, container ''Identity'' [])"
    using conjunct1 [OF conjunct2 [OF t]] by (simp add: r1_def to_module_def)
  show ?thesis
    using 1 2 unfolding w_def conv_def by (rule conjI)
qed


lemma modules_unfold: "modules m = m # modules_of_children (named_children m)"
  by (cases m) simp

lemma modules_of_children_mem:
  "(cn, Some c) \<in> set chs \<Longrightarrow> set (modules c) \<subseteq> set (modules_of_children chs)"
proof (induction chs)
  case Nil
  then show ?case by simp
next
  case (Cons a chs)
  obtain n v where a: "a = (n, v)" by (cases a)
  show ?case using Cons by (cases v) (auto simp: a)
qed

lemma unique_child_names_here:
  "unique_child_names m \<Longrightarrow> distinct (map fst (named_children m))"
  unfolding unique_child_names_def by (subst (asm) modules_unfold) simp

lemma unique_child_names_child:
  assumes "unique_child_names m" "(cn, Some c) \<in> set (named_children m)"
  shows "unique_child_names c"
proof -
  have "set (modules c) \<subseteq> set (modules m)"
    using modules_of_children_mem[OF assms(2)] by (subst (2) modules_unfold) auto
  then show ?thesis using assms(1) unfolding unique_child_names_def list_all_iff by blast
qed

lemma update_same:
  "distinct (map fst al) \<Longrightarrow> (k, v) \<in> set al \<Longrightarrow> AList.update k v al = al"
  by (simp add: update_triv)

lemma setattr_same:
  "distinct (map fst (named_children m)) \<Longrightarrow> (cn, Some c) \<in> set (named_children m) \<Longrightarrow>
   setattr m cn c = m"
  by (cases m) (simp add: update_same)

lemma apply_rules_no_match:
  assumes "no_rule_matches (rules (replacer w)) x name full_name"
  shows "ModuleReplacer_apply_rules w x name full_name =
      (Inr (0, x), w\<lparr>calls := calls w @
          map (\<lambda>j. FilterCall j x name full_name) [0..<length (rules (replacer w))]\<rparr>)"
  unfolding ModuleReplacer_apply_rules_def
  using apply_rules_loop_no_match[of "rules (replacer w)" x name full_name 0 w] assms
  by (simp add: no_rule_matches_def list_all_iff)

lemma quiet_below_child:
  assumes "quiet_below rs p m" "(cn, Some c) \<in> set (named_children m)"
  shows "no_rule_matches rs c cn (p @ cn)" "quiet_below rs (p @ cn @ ''.'') c"
proof -
  have "node_at m [cn] c" using assms(2) by (auto simp: node_at_Cons)
  then show "no_rule_matches rs c cn (p @ cn)"
    using assms(1) unfolding quiet_below_def by (metis dot_join.simps(2) last.simps list.distinct(1))
  show "quiet_below rs (p @ cn @ ''.'') c"
    unfolding quiet_below_def
  proof (intro allI impI)
    fix names x
    assume a: "names \<noteq> [] \<and> node_at c names x"
    then have "node_at m (cn # names) x" using assms(2) by (auto simp: node_at_Cons)
    then have "no_rule_matches rs x (last (cn # names)) (p @ dot_join (cn # names))"
      using assms(1) unfolding quiet_below_def by blast
    then show "no_rule_matches rs x (last names) ((p @ cn @ ''.'') @ dot_join names)"
      using a by (simp add: dot_join_Cons)
  qed
qed

lemma traversal_no_match:
  "replacer w = R \<longrightarrow> quiet_below (rules R) p m \<longrightarrow> unique_child_names m \<longrightarrow>
     fst (ModuleReplacer_apply_recursively w m p) = Inr (0, m)
     \<and> stdout (snd (ModuleReplacer_apply_recursively w m p)) = stdout w"
  "replacer w' = R \<longrightarrow>
     (\<forall>cn c. (cn, Some c) \<in> set chs \<longrightarrow> no_rule_matches (rules R) c cn (p' @ cn)
         \<and> quiet_below (rules R) (p' @ cn @ ''.'') c \<and> unique_child_names c) \<longrightarrow>
     distinct (map fst (named_children macc)) \<longrightarrow> set chs \<subseteq> set (named_children macc) \<longrightarrow>
     fst (children_loop w' p' chs n macc) = Inr (n, macc)
     \<and> stdout (snd (children_loop w' p' chs n macc)) = stdout w'"
proof (induction w m p and w' p' chs n macc rule: traversal_induct)
  case (Module w m p)
  show ?case
  proof (intro impI)
    assume a: "replacer w = R" "quiet_below (rules R) p m" "unique_child_names m"
    have "\<forall>cn c. (cn, Some c) \<in> set (named_children m) \<longrightarrow>
        no_rule_matches (rules R) c cn (p @ cn)
         \<and> quiet_below (rules R) (p @ cn @ ''.'') c \<and> unique_child_names c"
      using quiet_below_child[OF a(2)] unique_child_names_child[OF a(3)] by blast
    then show "fst (ModuleReplacer_apply_recursively w m p) = Inr (0, m)
         \<and> stdout (snd (ModuleReplacer_apply_recursively w m p)) = stdout w"
      using Module a(1) unique_child_names_here[OF a(3)]
      by (simp add: apply_recursively_unfold)
  qed
next
  case (Nil w p n m)
  then show ?case by simp
next
  case (Skip w p cn rest n m)
  then show ?case by simp
next
  case (Child w p cn child rest n m)
  show ?case
  proof (intro impI)
    assume a: "replacer w = R"
      and b: "\<forall>cn' c. (cn', Some c) \<in> set ((cn, Some child) # rest) \<longrightarrow>
         no_rule_matches (rules R) c cn' (p @ cn')
         \<and> quiet_below (rules R) (p @ cn' @ ''.'') c \<and> unique_child_names c"
      and d: "distinct (map fst (named_children m))"
      and s: "set ((cn, Some child) # rest) \<subseteq> set (named_children m)"
    have c: "no_rule_matches (rules R) child cn (p @ cn)"
      "quiet_below (rules R) (p @ cn @ ''.'') child" "unique_child_names child"
      using b by auto
    define w1 where "w1 = w\<lparr>calls := calls w @
          map (\<lambda>j. FilterCall j child cn (p @ cn)) [0..<length (rules (replacer w))]\<rparr>"
    have r: "ModuleReplacer_apply_rules w child cn (p @ cn) = (Inr (0, child), w1)"
      unfolding w1_def using c(1) a by (intro apply_rules_no_match) simp
    have w1: "replacer w1 = R" "stdout w1 = stdout w" using a by (simp_all add: w1_def)
    obtain r2 w2 where t: "ModuleReplacer_apply_recursively w1 child (p @ cn @ ''.'') = (r2, w2)"
      by (cases "ModuleReplacer_apply_recursively w1 child (p @ cn @ ''.'')")
    have r2: "r2 = Inr (0, child)" "stdout w2 = stdout w"
      using Child(1)[OF r] w1 c(2,3) t by simp_all
    have w2: "replacer w2 = R" using apply_recursively_replacer[OF t] w1 by simp
    have v: "visit_child w p cn child = (Inr (0, child), w2)"
      using r t r2 by (simp add: visit_child_def)
    have same: "setattr m cn child = m"
      using d s by (intro setattr_same) auto
    have "fst (children_loop w2 p rest (n + 0) (setattr m cn child)) = Inr (n + 0, setattr m cn child)
       \<and> stdout (snd (children_loop w2 p rest (n + 0) (setattr m cn child))) = stdout w2"
      using Child(2)[OF v] w2 b d s same by auto
    then show "fst (children_loop w p ((cn, Some child) # rest) n m) = Inr (n, m)
       \<and> stdout (snd (children_loop w p ((cn, Some child) # rest) n m)) = stdout w"
      by (simp add: children_loop_Some_Inr[OF v] same r2)
  qed
qed

text \<open>
  C4 (non-matching passes). If no rule's filter matches any node of the tree, each node
  taken with its name and its dot-joined path, then \<open>apply\<close> returns the tree it was given,
  equal at every position, both counts are 0, nothing is printed by the traversal, and at
  verbosity 1 or more the one line printed reports a total of 0. (The child names of every
  node are unique, as the keys of a mapping are.)
\<close>

theorem apply_no_match_identity:
  assumes "unique_child_names m"
    and "\<forall>names x. node_at m names x \<longrightarrow>
           no_rule_matches (rules (replacer w)) x (node_name names) (dot_join names)"
  shows "fst (apply_traverse w m) = Inr (0, 0, m)
       \<and> fst (ModuleReplacer_apply w m) = Inr m
       \<and> stdout (snd (ModuleReplacer_apply w m)) = stdout w @
           (if verbosity (replacer w) \<ge> 1 then [total_line (class_name (replacer w)) 0] else [])"
proof -
  define w1 where "w1 = w\<lparr>calls := calls w @
          map (\<lambda>j. FilterCall j m [] []) [0..<length (rules (replacer w))]\<rparr>"
  have "node_at m [] m" by simp
  then have "no_rule_matches (rules (replacer w)) m [] []"
    using assms(2) by (metis dot_join.simps(1) node_name_def)
  then have r: "ModuleReplacer_apply_rules w m [] [] = (Inr (0, m), w1)"
    unfolding w1_def by (rule apply_rules_no_match)
  have w1: "replacer w1 = replacer w" "stdout w1 = stdout w" by (simp_all add: w1_def)
  have q: "quiet_below (rules (replacer w)) [] m"
    unfolding quiet_below_def
  proof (intro allI impI)
    fix names x
    assume "names \<noteq> [] \<and> node_at m names x"
    then show "no_rule_matches (rules (replacer w)) x (last names) ([] @ dot_join names)"
      using assms(2)[rule_format, of names x] by (simp add: node_name_def)
  qed
  obtain r2 w2 where t: "ModuleReplacer_apply_recursively w1 m [] = (r2, w2)"
    by (cases "ModuleReplacer_apply_recursively w1 m []")
  have r2: "r2 = Inr (0, m)" "stdout w2 = stdout w"
    using traversal_no_match(1)[of w1 "replacer w" "[]" m] w1 q assms(1) t by simp_all
  have w2: "replacer w2 = replacer w" using apply_recursively_replacer[OF t] w1 by simp
  have 1: "apply_traverse w m = (Inr (0, 0, m), w2)"
    using r t r2 by (simp add: apply_traverse_def)
  show ?thesis
    using 1 w2 r2 by (simp add: ModuleReplacer_apply_def print_def)
qed

subsection \<open>Paths\<close>

lemma apply_traverse_calls:
  assumes "apply_traverse w m = (res, w2)"
  obtains r w1 where "ModuleReplacer_apply_rules w m [] [] = (r, w1)"
   and "\<exists>cs1 cs2. calls w1 = calls w @ cs1 \<and> calls w2 = calls w1 @ cs2
      \<and> (\<forall>ev\<in>set cs1. call_module ev = m \<and> call_name ev = [] \<and> call_full_name ev = [])
      \<and> (\<forall>c m1. r = Inr (c, m1) \<longrightarrow> c = count_calls cs1 \<and> (\<forall>ev\<in>set cs2. on_path [] m1 ev))
      \<and> ((\<exists>e. r = Inl e) \<longrightarrow> cs2 = [])
      \<and> (\<forall>rc c m'. res = Inr (rc, c, m') \<longrightarrow> rc = count_calls cs1 \<and> c = count_calls cs2)"
proof -
  obtain r w1 where a: "ModuleReplacer_apply_rules w m [] [] = (r, w1)"
    by (cases "ModuleReplacer_apply_rules w m [] []")
  from apply_rules_calls[OF a] obtain cs1 where cs1: "calls w1 = calls w @ cs1
     \<and> (\<forall>ev\<in>set cs1. call_module ev = m \<and> call_name ev = [] \<and> call_full_name ev = [])
     \<and> count_calls cs1 \<le> 1
     \<and> (\<forall>c m'. r = Inr (c, m') \<longrightarrow> c = count_calls cs1)" ..
  show ?thesis
  proof (cases r)
    case (Inl e)
    then have "w2 = w1" "res = Inl e" using assms a by (simp_all add: apply_traverse_def)
    then show ?thesis using cs1 Inl by (intro that[OF a] exI[of _ cs1] exI[of _ "[]"]) simp
  next
    case (Inr b)
    obtain c m1 where b: "b = (c, m1)" by (cases b)
    obtain r2 w2' where t: "ModuleReplacer_apply_recursively w1 m1 [] = (r2, w2')"
      by (cases "ModuleReplacer_apply_recursively w1 m1 []")
    from apply_recursively_calls[OF t] obtain cs2 where cs2: "calls w2' = calls w1 @ cs2
       \<and> (\<forall>ev\<in>set cs2. on_path [] m1 ev)
       \<and> (\<forall>c m'. r2 = Inr (c, m') \<longrightarrow> c = count_calls cs2)" ..
    have w2: "w2 = w2'" using assms a Inr b t by (cases r2) (auto simp: apply_traverse_def)
    have res: "\<forall>rc c' m'. res = Inr (rc, c', m') \<longrightarrow> rc = c \<and> r2 = Inr (c', m')"
      using assms a Inr b t by (cases r2) (auto simp: apply_traverse_def)
    show ?thesis
      using cs1 cs2 Inr b w2 res
      by (intro that[OF a] exI[of _ cs1] exI[of _ cs2]) auto
  qed
qed

lemma apply_calls_traverse: "calls (snd (ModuleReplacer_apply w m)) = calls (snd (apply_traverse w m))"
proof -
  obtain r w' where t: "apply_traverse w m = (r, w')" by (cases "apply_traverse w m")
  show ?thesis using t
    by (cases r) (auto simp: ModuleReplacer_apply_def print_def Let_def)
qed

text \<open>
  C5 (path correctness). Every call of a filter or transformer made by \<open>apply\<close> is either on
  the root, with the empty name and the empty path, or on a node reached from the root as
  the rules left it by a non-empty sequence of child names, with the last of these names
  as its name and their dot-joined sequence as its full name. The dot-joined sequence of a
  single name is the bare name, and that of \<open>block1\<close>, \<open>conv1\<close> is \<open>block1.conv1\<close>.
\<close>

theorem apply_paths_are_dot_joined:
  "(\<forall>ev\<in>set (new_calls w (snd (ModuleReplacer_apply w m))).
      (call_module ev = m \<and> call_name ev = [] \<and> call_full_name ev = dot_join [])
      \<or> (\<exists>c m1 names. fst (ModuleReplacer_apply_rules w m [] []) = Inr (c, m1) \<and> names \<noteq> []
           \<and> node_at m1 names (call_module ev) \<and> call_name ev = last names
           \<and> call_full_name ev = dot_join names))
   \<and> dot_join [n] = n
   \<and> dot_join [''block1'', ''conv1''] = ''block1.conv1''"
proof -
  obtain res w2 where t: "apply_traverse w m = (res, w2)" by (cases "apply_traverse w m")
  from t obtain r w1 cs1 cs2 where a: "ModuleReplacer_apply_rules w m [] [] = (r, w1)"
    and cs: "calls w1 = calls w @ cs1" "calls w2 = calls w1 @ cs2"
      "\<forall>ev\<in>set cs1. call_module ev = m \<and> call_name ev = [] \<and> call_full_name ev = []"
      "\<forall>c m1. r = Inr (c, m1) \<longrightarrow> c = count_calls cs1 \<and> (\<forall>ev\<in>set cs2. on_path [] m1 ev)"
      "(\<exists>e. r = Inl e) \<longrightarrow> cs2 = []"
    by (rule apply_traverse_calls) blast
  have n: "new_calls w (snd (ModuleReplacer_apply w m)) = cs1 @ cs2"
    using cs(1,2) t by (intro new_calls_eq) (simp add: apply_calls_traverse)
  have "(call_module ev = m \<and> call_name ev = [] \<and> call_full_name ev = dot_join [])
      \<or> (\<exists>c m1 names. fst (ModuleReplacer_apply_rules w m [] []) = Inr (c, m1) \<and> names \<noteq> []
           \<and> node_at m1 names (call_module ev) \<and> call_name ev = last names
           \<and> call_full_name ev = dot_join names)" if "ev \<in> set (cs1 @ cs2)" for ev
  proof (cases "ev \<in> set cs1")
    case True
    then show ?thesis using cs(3) by simp
  next
    case False
    then have e: "ev \<in> set cs2" using that by simp
    then obtain c m1 where r: "r = Inr (c, m1)" using cs(5) by (cases r) auto
    then have "on_path [] m1 ev" using cs(4) e by blast
    then show ?thesis unfolding on_path_def using a r by auto
  qed
  then show ?thesis unfolding n by simp
qed

lemma apply_rules_first_match_fst:
  assumes "rules (replacer w) = pre @ r # post"
    and "\<forall>q\<in>set pre. ModuleFilter_apply (rule_filter q) m name full_name = Inr False"
    and "ModuleFilter_apply (rule_filter r) m name full_name = Inr True"
  shows "fst (ModuleReplacer_apply_rules w m name full_name) =
           (case ModuleTransformer_apply (rule_transformer r) m name full_name of
              Inl e \<Rightarrow> Inl e
            | Inr m' \<Rightarrow> Inr (1, m'))"
  unfolding ModuleReplacer_apply_rules_def assms(1)
  by (simp add: apply_rules_loop_first_match[OF assms(2,3)] Let_def split: sum.splits)

lemma node_at_modules: "node_at m names x \<Longrightarrow> x \<in> set (modules m)"
proof (induction names arbitrary: m)
  case Nil
  then show ?case by (simp add: modules_unfold[of m])
next
  case (Cons n ns)
  then obtain c where c: "(n, Some c) \<in> set (named_children m)" "node_at c ns x"
    by (auto simp: node_at_Cons)
  have "x \<in> set (modules c)" using Cons.IH[OF c(2)] .
  then have "x \<in> set (modules_of_children (named_children m))"
    using modules_of_children_mem[OF c(1)] by blast
  then show ?case by (subst modules_unfold) simp
qed

subsection \<open>Counting\<close>

text \<open>
  C9. The counts of \<open>apply\<close> count rule matches: when the traversal returns, the sum of the
  root count and the recursive count is the number of transformer calls made, and it is
  the number the summary line reports, whatever the transformers returned. For the
  BSConvS preset and a root that is not a convolution, the root count is 1 although the
  module returned for the root is the root itself with \<open>reg_loss\<close> attached.
\<close>

theorem replaced_count_counts_matches:
  "(\<forall>rc c m'. fst (apply_traverse w m) = Inr (rc, c, m') \<longrightarrow>
       rc + c = count_calls (new_calls w (snd (ModuleReplacer_apply w m)))
       \<and> stdout (snd (ModuleReplacer_apply w m)) = stdout (snd (apply_traverse w m)) @
           (if verbosity (replacer w) \<ge> 1
            then [total_line (class_name (replacer w))
                    (count_calls (new_calls w (snd (ModuleReplacer_apply w m))))]
            else []))
   \<and> (replacer w = BSConvS_Replacer BSConvS ks p with_bn_relu bn_kwargs v \<and> \<not> is_Conv2d m \<longrightarrow>
        fst (ModuleReplacer_apply_rules w m [] []) = Inr (1, attach_reg_loss m)
        \<and> (\<forall>rc c m'. fst (apply_traverse w m) = Inr (rc, c, m') \<longrightarrow> rc = 1))"
proof -
  obtain res w2 where t: "apply_traverse w m = (res, w2)" by (cases "apply_traverse w m")
  from t obtain r w1 cs1 cs2 where a: "ModuleReplacer_apply_rules w m [] [] = (r, w1)"
    and cs: "calls w1 = calls w @ cs1" "calls w2 = calls w1 @ cs2"
      "\<forall>rc c m'. res = Inr (rc, c, m') \<longrightarrow> rc = count_calls cs1 \<and> c = count_calls cs2"
    by (rule apply_traverse_calls) blast
  have n: "new_calls w (snd (ModuleReplacer_apply w m)) = cs1 @ cs2"
    using cs(1,2) t by (intro new_calls_eq) (simp add: apply_calls_traverse)
  have w2: "replacer w2 = replacer w" using apply_traverse_replacer[of w m] t by simp
  have 1: "\<forall>rc c m'. fst (apply_traverse w m) = Inr (rc, c, m') \<longrightarrow>
       rc + c = count_calls (new_calls w (snd (ModuleReplacer_apply w m)))
       \<and> stdout (snd (ModuleReplacer_apply w m)) = stdout (snd (apply_traverse w m)) @
           (if verbosity (replacer w) \<ge> 1
            then [total_line (class_name (replacer w))
                    (count_calls (new_calls w (snd (ModuleReplacer_apply w m))))]
            else [])"
    unfolding n using cs(3) t w2
    by (auto simp: ModuleReplacer_apply_def print_def Let_def add.commute)
  have 2: "fst (ModuleReplacer_apply_rules w m [] []) = Inr (1, attach_reg_loss m)
        \<and> (\<forall>rc c m'. fst (apply_traverse w m) = Inr (rc, c, m') \<longrightarrow> rc = 1)"
    if p: "replacer w = BSConvS_Replacer BSConvS ks p with_bn_relu bn_kwargs v" and c: "\<not> is_Conv2d m"
  proof -
    let ?r0 = "\<lparr>rule_filter = Conv2dFilter_init ks,
                rule_transformer = BSConvSTransformer BSConvS p with_bn_relu bn_kwargs\<rparr>"
    let ?r1 = "\<lparr>rule_filter = ModelFilter, rule_transformer = RegularizationMethodTransformer\<rparr>"
    have rs: "rules (replacer w) = [?r0] @ ?r1 # []"
      by (simp add: p BSConvS_Replacer_def)
    have h1: "\<forall>q\<in>set [?r0]. ModuleFilter_apply (rule_filter q) m [] [] = Inr False"
      using c by (cases ks) (simp_all add: Conv2dFilter_init_def Conv2dFilter_apply_def)
    have h2: "ModuleFilter_apply (rule_filter ?r1) m [] [] = Inr True"
      by (simp add: ModelFilter_apply_def)
    have f: "fst (ModuleReplacer_apply_rules w m [] []) = Inr (1, attach_reg_loss m)"
      using apply_rules_first_match_fst[OF rs h1 h2]
      by (simp add: RegularizationMethodTransformer_apply_def)
    then have "r = Inr (1, attach_reg_loss m)" using a by simp
    then have "\<forall>rc c m'. fst (apply_traverse w m) = Inr (rc, c, m') \<longrightarrow> rc = 1"
      using a by (auto simp: apply_traverse_def split: prod.splits sum.splits)
    then show ?thesis using f by simp
  qed
  show ?thesis using 1 2 by blast
qed

subsection \<open>The children of a replaced root are visited\<close>

lemma apply_rules_first_call:
  assumes "rules (replacer w) \<noteq> []" "ModuleReplacer_apply_rules w x n f = (r, w1)"
  shows "\<exists>cs. calls w1 = calls w @ FilterCall 0 x n f # cs"
proof -
  obtain r0 rs where rs: "rules (replacer w) = r0 # rs" using assms(1) by (cases "rules (replacer w)") auto
  let ?w1 = "w\<lparr>calls := calls w @ [FilterCall 0 x n f]\<rparr>"
  show ?thesis
  proof (cases "ModuleFilter_apply (rule_filter r0) x n f")
    case (Inl e)
    then show ?thesis using assms(2) rs
      by (auto simp: ModuleReplacer_apply_rules_def Let_def)
  next
    case (Inr b)
    show ?thesis
    proof (cases b)
      case True
      then show ?thesis using assms(2) rs Inr
        by (cases "ModuleTransformer_apply (rule_transformer r0) x n f")
           (auto simp: ModuleReplacer_apply_rules_def Let_def print_def)
    next
      case False
      from apply_rules_loop_calls[of "Suc 0" rs ?w1 x n f] obtain cs where
        "calls (snd (apply_rules_loop (Suc 0) rs ?w1 x n f)) = calls ?w1 @ cs" by blast
      then show ?thesis using assms(2) rs Inr False
        by (auto simp: ModuleReplacer_apply_rules_def Let_def)
    qed
  qed
qed

lemma visit_child_first_call:
  assumes "rules (replacer w) \<noteq> []" "visit_child w p cn child = (r, w2)"
  shows "\<exists>cs. calls w2 = calls w @ FilterCall 0 child cn (p @ cn) # cs"
  using assms(2)
proof (cases rule: visit_child_cases)
  case (Raise e)
  then show ?thesis using apply_rules_first_call[OF assms(1)] by blast
next
  case (Match c nc)
  then show ?thesis using apply_rules_first_call[OF assms(1)] by blast
next
  case (Descend nc w1)
  from apply_rules_first_call[OF assms(1) Descend(1)] obtain cs1 where
    "calls w1 = calls w @ FilterCall 0 child cn (p @ cn) # cs1" by blast
  moreover from apply_recursively_calls[OF Descend(2)] obtain cs2 where
    "calls w2 = calls w1 @ cs2" by blast
  ultimately show ?thesis by simp
qed

lemma children_visited:
  "rules (replacer w) \<noteq> [] \<Longrightarrow> children_loop w p chs n macc = (Inr res, w') \<Longrightarrow>
   (cn, Some c) \<in> set chs \<Longrightarrow> FilterCall 0 c cn (p @ cn) \<in> set (new_calls w w')"
proof (induction chs arbitrary: w n macc)
  case Nil
  then show ?case by simp
next
  case (Cons a chs)
  obtain k v where a: "a = (k, v)" by (cases a)
  show ?case
  proof (cases v)
    case None
    then show ?thesis using Cons a by simp
  next
    case (Some child)
    obtain r w2 where vc: "visit_child w p k child = (r, w2)" by (cases "visit_child w p k child")
    obtain c' nc where r: "r = Inr (c', nc)"
      using Cons.prems(2) vc a Some by (cases r) (auto simp: children_loop_Some)
    have l: "children_loop w2 p chs (n + c') (setattr macc k nc) = (Inr res, w')"
      using Cons.prems(2) vc a Some r by (simp add: children_loop_Some)
    from visit_child_first_call[OF Cons.prems(1) vc] obtain cs1 where
      cs1: "calls w2 = calls w @ FilterCall 0 child k (p @ k) # cs1" by blast
    from children_loop_calls[OF l] obtain cs2 where cs2: "calls w' = calls w2 @ cs2" by blast
    have n1: "new_calls w w' = FilterCall 0 child k (p @ k) # cs1 @ cs2"
      using cs1 cs2 by (intro new_calls_eq) simp
    have n2: "new_calls w2 w' = cs2" using cs2 by (rule new_calls_eq)
    have w2: "rules (replacer w2) \<noteq> []" using visit_child_replacer[OF vc] Cons.prems(1) by simp
    show ?thesis
    proof (cases "(cn, Some c) = (k, Some child)")
      case True
      then show ?thesis using n1 by simp
    next
      case False
      then have "(cn, Some c) \<in> set chs" using Cons.prems(3) a Some by auto
      from Cons.IH[OF w2 l this] show ?thesis using n1 n2 by simp
    qed
  qed
qed

text \<open>
  C1, as amended. If a rule matches the root, \<open>apply\<close> takes the transformer's output as the
  new root and records 1 match for the root; it then traverses the children of that
  output: the result of \<open>apply\<close> is the result of \<open>_apply_recursively\<close> on the output with
  the empty prefix, and when \<open>apply\<close> returns, the first filter has been called on every
  child of the output, with the child's name as its full name.
\<close>

theorem apply_root_match_then_children:
  assumes "rules (replacer w) = pre @ r # post"
    and "\<forall>q\<in>set pre. ModuleFilter_apply (rule_filter q) m [] [] = Inr False"
    and "ModuleFilter_apply (rule_filter r) m [] [] = Inr True"
    and "ModuleTransformer_apply (rule_transformer r) m [] [] = Inr m'"
  shows "fst (ModuleReplacer_apply_rules w m [] []) = Inr (1, m')
     \<and> apply_traverse w m =
         (case ModuleReplacer_apply_recursively (snd (ModuleReplacer_apply_rules w m [] [])) m' [] of
            (Inl e, w2) \<Rightarrow> (Inl e, w2)
          | (Inr (c, m2), w2) \<Rightarrow> (Inr (1, c, m2), w2))
     \<and> (\<forall>x. fst (ModuleReplacer_apply w m) = Inr x \<longrightarrow>
          (\<forall>cn c. (cn, Some c) \<in> set (named_children m') \<longrightarrow>
             FilterCall 0 c cn cn \<in> set (new_calls w (snd (ModuleReplacer_apply w m)))))"
proof -
  obtain r1 w1 where a: "ModuleReplacer_apply_rules w m [] [] = (r1, w1)"
    by (cases "ModuleReplacer_apply_rules w m [] []")
  have r1: "r1 = Inr (1, m')"
    using apply_rules_first_match_fst[OF assms(1,2,3)] a assms(4)
    by simp
  have 1: "fst (ModuleReplacer_apply_rules w m [] []) = Inr (1, m')" using a r1 by simp
  have 2: "apply_traverse w m =
         (case ModuleReplacer_apply_recursively (snd (ModuleReplacer_apply_rules w m [] [])) m' [] of
            (Inl e, w2) \<Rightarrow> (Inl e, w2)
          | (Inr (c, m2), w2) \<Rightarrow> (Inr (1, c, m2), w2))"
    using a r1 by (simp add: apply_traverse_def split: prod.splits sum.splits)
  have 3: "FilterCall 0 c cn cn \<in> set (new_calls w (snd (ModuleReplacer_apply w m)))"
    if x: "fst (ModuleReplacer_apply w m) = Inr x" and c: "(cn, Some c) \<in> set (named_children m')"
    for x cn c
  proof -
    obtain r2 w2 where t: "ModuleReplacer_apply_recursively w1 m' [] = (r2, w2)"
      by (cases "ModuleReplacer_apply_recursively w1 m' []")
    obtain res where r2: "r2 = Inr res"
      using x 2 a t by (cases r2) (auto simp: ModuleReplacer_apply_def)
    have tr: "apply_traverse w m = (Inr (1, fst res, snd res), w2)"
      using 2 a t r2 by (cases res) simp
    have l: "children_loop w1 [] (named_children m') 0 m' = (Inr res, w2)"
      using t r2 by (simp add: apply_recursively_unfold)
    have ne: "rules (replacer w1) \<noteq> []"
      using apply_rules_replacer[OF a] assms(1) by simp
    have v: "FilterCall 0 c cn ([] @ cn) \<in> set (new_calls w1 w2)"
      by (rule children_visited[OF ne l c])
    from apply_rules_calls[OF a] obtain cs1 where cs1: "calls w1 = calls w @ cs1" by blast
    from apply_recursively_calls[OF t] obtain cs2 where cs2: "calls w2 = calls w1 @ cs2" by blast
    have "new_calls w1 w2 = cs2" using cs2 by (rule new_calls_eq)
    moreover have "new_calls w (snd (ModuleReplacer_apply w m)) = cs1 @ cs2"
      using cs1 cs2 tr by (intro new_calls_eq) (simp add: apply_calls_traverse)
    ultimately show ?thesis using v by simp
  qed
  show ?thesis using 1 2 3 by blast
qed

lemmas eval_defs = fresh_def BSConvS_Replacer_def BSConvU_Replacer_def default_kernel_sizes_def
  Conv2dFilter_init_def Conv2dFilter_apply_def ModelFilter_apply_def BSConvSTransformer_apply_def
  Conv2dToBSConvUTransformer_apply_def RegularizationMethodTransformer_apply_def
  opaque_BSConvS_def opaque_BSConvU_def container_def Conv2d_def example_attrs_def ReLU_def
  ModuleReplacer_apply_def apply_traverse_def ModuleReplacer_apply_rules_def Let_def
  children_loop_Some visit_child_def print_def preset_S_def preset_U_def

lemma small_net_S:
  "ModuleReplacer_apply (fresh preset_S) small_net =
     (Inr (Module ''Net'' False None True None [(''conv'', Some (container ''BSConvS'' []))]),
      \<lparr>replacer = preset_S, stdout = [],
       calls = [FilterCall 0 small_net [] [], FilterCall 1 small_net [] [],
                TransformerCall 1 small_net [] [],
                FilterCall 0 conv3 ''conv'' ''conv'', TransformerCall 0 conv3 ''conv'' ''conv'']\<rparr>)"
  by (simp add: eval_defs small_net_def conv3_def)

lemma nested_U:
  "ModuleReplacer_apply (fresh (preset_U 0)) (nested_net conv3) =
     (Inr (container ''Net''
     [(''block1'', Some (container ''Block'' [(''conv1'', Some (container ''BSConvU'' []))])), (''act'', Some ReLU)]),
      \<lparr>replacer = preset_U 0, stdout = [],
       calls = [FilterCall 0 (nested_net conv3) [] [],
                FilterCall 0 (container ''Block'' [(''conv1'', Some conv3)]) ''block1'' ''block1'',
                FilterCall 0 conv3 ''conv1'' ''block1.conv1'',
                TransformerCall 0 conv3 ''conv1'' ''block1.conv1'',
                FilterCall 0 ReLU ''act'' ''act'']\<rparr>)"
  by (simp add: eval_defs nested_net_def conv3_def)

lemma calls_fresh: "calls (fresh r) = []"
  by (simp add: fresh_def)

lemma small_net_S_traverse:
  "fst (apply_traverse (fresh preset_S) small_net) =
     Inr (1, 1, Module ''Net'' False None True None [(''conv'', Some (container ''BSConvS'' []))])"
  by (simp add: eval_defs small_net_def conv3_def)

lemma small_net_S_rules:
  "rules (replacer (fresh preset_S)) =
     [\<lparr>rule_filter = Conv2dFilter_init default_kernel_sizes,
       rule_transformer = BSConvSTransformer opaque_BSConvS (1 / 4) True None\<rparr>] @
     \<lparr>rule_filter = ModelFilter, rule_transformer = RegularizationMethodTransformer\<rparr> # []"
  by (simp add: fresh_def preset_S_def BSConvS_Replacer_def)

lemma small_net_facts:
  "\<not> is_Conv2d small_net" "named_children (attach_reg_loss small_net) = [(''conv'', Some conv3)]"
  by (simp_all add: small_net_def container_def)

text \<open>
  C1, as stated, fails: with the BSConvS preset the root of a model with one convolution
  is matched by the second rule, the transformer returns the root with \<open>reg_loss\<close> attached,
  and the filter and transformer of the first rule are then called on the convolution, a
  child of that output.
\<close>

theorem apply_recurses_into_replaced_root:
  "fst (ModuleReplacer_apply_rules (fresh preset_S) small_net [] [])
     = Inr (1, attach_reg_loss small_net)
   \<and> node_at (attach_reg_loss small_net) [''conv''] conv3
   \<and> FilterCall 0 conv3 ''conv'' ''conv''
       \<in> set (calls (snd (ModuleReplacer_apply (fresh preset_S) small_net)))
   \<and> TransformerCall 0 conv3 ''conv'' ''conv''
       \<in> set (calls (snd (ModuleReplacer_apply (fresh preset_S) small_net)))"
proof -
  have 1: "fst (ModuleReplacer_apply_rules (fresh preset_S) small_net [] [])
     = Inr (1, attach_reg_loss small_net)"
    by (simp add: eval_defs small_net_def)
  have 2: "node_at (attach_reg_loss small_net) [''conv''] conv3"
    by (simp add: node_at_Cons small_net_facts)
  show ?thesis using 1 2 by (simp add: small_net_S)
qed

theorem apply_root_match_then_children_witness:
  "fst (ModuleReplacer_apply_rules (fresh preset_S) small_net [] [])
     = Inr (1, attach_reg_loss small_net)
   \<and> FilterCall 0 conv3 ''conv'' ''conv''
       \<in> set (new_calls (fresh preset_S) (snd (ModuleReplacer_apply (fresh preset_S) small_net)))"
proof -
  have h1: "\<forall>q\<in>set [\<lparr>rule_filter = Conv2dFilter_init default_kernel_sizes,
       rule_transformer = BSConvSTransformer opaque_BSConvS (1 / 4) True None\<rparr>].
       ModuleFilter_apply (rule_filter q) small_net [] [] = Inr False"
    by (simp add: default_kernel_sizes_def Conv2dFilter_init_def Conv2dFilter_apply_def
          small_net_facts)
  have h2: "ModuleFilter_apply (rule_filter
       \<lparr>rule_filter = ModelFilter, rule_transformer = RegularizationMethodTransformer\<rparr>)
       small_net [] [] = Inr True"
    by (simp add: ModelFilter_apply_def)
  have h3: "ModuleTransformer_apply (rule_transformer
       \<lparr>rule_filter = ModelFilter, rule_transformer = RegularizationMethodTransformer\<rparr>)
       small_net [] [] = Inr (attach_reg_loss small_net)"
    by (simp add: RegularizationMethodTransformer_apply_def)
  note t = apply_root_match_then_children [OF small_net_S_rules h1 h2 h3]
  have x: "fst (ModuleReplacer_apply (fresh preset_S) small_net) =
     Inr (Module ''Net'' False None True None [(''conv'', Some (container ''BSConvS'' []))])"
    by (simp add: small_net_S)
  have c: "(''conv'', Some conv3) \<in> set (named_children (attach_reg_loss small_net))"
    by (simp add: small_net_facts)
  have 3: "FilterCall 0 conv3 ''conv'' ''conv''
       \<in> set (new_calls (fresh preset_S) (snd (ModuleReplacer_apply (fresh preset_S) small_net)))"
    by (rule mp [OF spec [OF spec [OF mp [OF spec [OF conjunct2 [OF conjunct2 [OF t]]] x]]] c])
  show ?thesis by (rule conjI [OF conjunct1 [OF t] 3])
qed

theorem replaced_count_counts_matches_witness:
  "fst (apply_traverse (fresh preset_S) small_net) =
     Inr (1, 1, Module ''Net'' False None True None [(''conv'', Some (container ''BSConvS'' []))])
   \<and> 1 + 1 = count_calls (new_calls (fresh preset_S)
                 (snd (ModuleReplacer_apply (fresh preset_S) small_net)))
   \<and> fst (ModuleReplacer_apply_rules (fresh preset_S) small_net [] [])
       = Inr (1, attach_reg_loss small_net)"
proof -
  note t = replaced_count_counts_matches [of "fresh preset_S" small_net opaque_BSConvS
     default_kernel_sizes "1 / 4" True None 0]
  have p: "replacer (fresh preset_S) =
      BSConvS_Replacer opaque_BSConvS default_kernel_sizes (1 / 4) True None 0
      \<and> \<not> is_Conv2d small_net"
    by (simp add: fresh_def preset_S_def small_net_facts)
  have 2: "1 + 1 = count_calls (new_calls (fresh preset_S)
                 (snd (ModuleReplacer_apply (fresh preset_S) small_net)))"
    by (rule conjunct1 [OF mp [OF spec [OF spec [OF spec [OF conjunct1 [OF t]]]]
          small_net_S_traverse]])
  have 3: "fst (ModuleReplacer_apply_rules (fresh preset_S) small_net [] [])
       = Inr (1, attach_reg_loss small_net)"
    by (rule conjunct1 [OF mp [OF conjunct2 [OF t] p]])
  show ?thesis by (rule conjI [OF small_net_S_traverse conjI [OF 2 3]])
qed

lemma nested_conv7_quiet:
  "\<forall>x\<in>set (modules (nested_net conv7)).
     no_rule_matches (rules (replacer (fresh (preset_U 1)))) x n f"
  by (simp add: eval_defs nested_net_def conv7_def no_rule_matches_def)

theorem apply_no_match_identity_witness:
  "fst (apply_traverse (fresh (preset_U 1)) (nested_net conv7)) = Inr (0, 0, nested_net conv7)
   \<and> fst (ModuleReplacer_apply (fresh (preset_U 1)) (nested_net conv7)) = Inr (nested_net conv7)
   \<and> stdout (snd (ModuleReplacer_apply (fresh (preset_U 1)) (nested_net conv7)))
       = [total_line ''BSConvU_Replacer'' 0]"
proof -
  have h1: "unique_child_names (nested_net conv7)"
    by (simp add: unique_child_names_def nested_net_def container_def conv7_def Conv2d_def
          ReLU_def)
  have h2: "\<forall>names x. node_at (nested_net conv7) names x \<longrightarrow>
      no_rule_matches (rules (replacer (fresh (preset_U 1)))) x (node_name names) (dot_join names)"
    using nested_conv7_quiet node_at_modules by blast
  note t = apply_no_match_identity [OF h1 h2]
  have s: "stdout (fresh (preset_U 1)) @
           (if verbosity (replacer (fresh (preset_U 1))) \<ge> 1
            then [total_line (class_name (replacer (fresh (preset_U 1)))) 0] else [])
        = [total_line ''BSConvU_Replacer'' 0]"
    by (simp add: fresh_def preset_U_def BSConvU_Replacer_def)
  show ?thesis
    using t unfolding s .
qed

theorem apply_paths_are_dot_joined_witness:
  "new_calls (fresh (preset_U 0)) (snd (ModuleReplacer_apply (fresh (preset_U 0)) (nested_net conv3)))
     = [FilterCall 0 (nested_net conv3) [] [],
        FilterCall 0 (container ''Block'' [(''conv1'', Some conv3)]) ''block1'' ''block1'',
        FilterCall 0 conv3 ''conv1'' ''block1.conv1'',
        TransformerCall 0 conv3 ''conv1'' ''block1.conv1'',
        FilterCall 0 ReLU ''act'' ''act'']
   \<and> (\<exists>c m1 names. fst (ModuleReplacer_apply_rules (fresh (preset_U 0)) (nested_net conv3) [] [])
             = Inr (c, m1) \<and> names \<noteq> []
           \<and> node_at m1 names conv3 \<and> ''conv1'' = last names
           \<and> ''block1.conv1'' = dot_join names)
   \<and> dot_join [''conv1''] = ''conv1''"
proof -
  define ev where "ev = TransformerCall 0 conv3 ''conv1'' ''block1.conv1''"
  have n: "new_calls (fresh (preset_U 0))
       (snd (ModuleReplacer_apply (fresh (preset_U 0)) (nested_net conv3)))
     = [FilterCall 0 (nested_net conv3) [] [],
        FilterCall 0 (container ''Block'' [(''conv1'', Some conv3)]) ''block1'' ''block1'',
        FilterCall 0 conv3 ''conv1'' ''block1.conv1'',
        TransformerCall 0 conv3 ''conv1'' ''block1.conv1'',
        FilterCall 0 ReLU ''act'' ''act'']"
    by (simp add: nested_U new_calls_def calls_fresh)
  note t = apply_paths_are_dot_joined
        [of "fresh (preset_U 0)" "nested_net conv3" "''conv1''"]
  have i: "ev \<in> set (new_calls (fresh (preset_U 0))
       (snd (ModuleReplacer_apply (fresh (preset_U 0)) (nested_net conv3))))"
    unfolding n by (simp add: ev_def)
  have d: "\<not> (call_module ev = nested_net conv3 \<and> call_name ev = []
       \<and> call_full_name ev = dot_join [])"
    by (simp add: ev_def)
  have e: "\<exists>c m1 names. fst (ModuleReplacer_apply_rules (fresh (preset_U 0)) (nested_net conv3) [] [])
             = Inr (c, m1) \<and> names \<noteq> []
           \<and> node_at m1 names (call_module ev) \<and> call_name ev = last names
           \<and> call_full_name ev = dot_join names"
  proof (rule disjE [OF bspec [OF conjunct1 [OF t] i]])
    assume "call_module ev = nested_net conv3 \<and> call_name ev = []
       \<and> call_full_name ev = dot_join []"
    with d show ?thesis by (rule notE)
  next
    assume "\<exists>c m1 names. fst (ModuleReplacer_apply_rules (fresh (preset_U 0)) (nested_net conv3) [] [])
             = Inr (c, m1) \<and> names \<noteq> []
           \<and> node_at m1 names (call_module ev) \<and> call_name ev = last names
           \<and> call_full_name ev = dot_join names"
    then show ?thesis .
  qed
  have e': "\<exists>c m1 names. fst (ModuleReplacer_apply_rules (fresh (preset_U 0)) (nested_net conv3) [] [])
             = Inr (c, m1) \<and> names \<noteq> []
           \<and> node_at m1 names conv3 \<and> ''conv1'' = last names
           \<and> ''block1.conv1'' = dot_join names"
    using e unfolding ev_def call_module.simps call_name.simps call_full_name.simps .
  show ?thesis
    by (rule conjI [OF n conjI [OF e' conjunct1 [OF conjunct2 [OF t]]]])
qed

end
